theory Spec2Isabelle
  imports Main
begin

section \<open>Values, nodes and opcodes\<close>

text \<open>
  The code generator of \<^verbatim>\<open>src/compiler/generator.ts\<close> records opcodes, labels and block
  events while a visitor walks a function body, and assembles them into the case clauses
  of a \<^verbatim>\<open>switch (__state.label)\<close> state machine. The closure variables of
  \<^verbatim>\<open>createCodeGenerator\<close> are one record, every function of the closure takes that record
  and returns the updated one, and \<^verbatim>\<open>Debug.assert\<close> failures and accesses on
  \<^verbatim>\<open>undefined\<close> are error values.

  Arguments of opcodes are of type \<^verbatim>\<open>any\<close>, so there is one type of JavaScript values.
  The node factory (\<^verbatim>\<open>factory.ts\<close>) builds nodes from its arguments; its constructors
  are constructors of that type, and each keeps the location it was given. A generated
  label keeps the raw label; it is printed through \<^verbatim>\<open>labelNumbers\<close> later. A node of
  the parser is opaque: it carries its kind, the answer of \<^verbatim>\<open>isStatement\<close>, an
  identity and its statements (only the compound kinds have any). The \<^verbatim>\<open>parent\<close> link
  that \<^verbatim>\<open>writeStatement\<close> sets on a node is never read in this file and is left out.
\<close>

type_synonym TextRange = "nat \<times> nat"

datatype SyntaxKind =
    Block | FunctionBlock | TryBlock | CatchBlock | FinallyBlock
  | CaseClause | DefaultClause | OtherKind nat

datatype jsval =
    Undefined
  | Null
  | Bool bool
  | Num int
  | Str string
  | Arr "jsval list"
  | Obj "(string \<times> jsval) list"
  | SourceNode SyntaxKind bool nat "jsval list"
  | GeneratedNode string jsval "TextRange option"
  | GeneratedLabel jsval "TextRange option"
  | ExpressionStatement jsval "TextRange option"

text \<open>The members of \<^verbatim>\<open>OpCode\<close> (declared in \<^verbatim>\<open>types.ts\<close>) are those that
  \<^verbatim>\<open>writeOperation\<close> dispatches on.\<close>

datatype OpCode =
  Statement | Assign | Break | BrTrue | BrFalse | Yield | Return | Throw | Endfinally

datatype BlockAction = Open | Close

datatype BlockKind = Exception | ScriptBreak | BreakKind | ScriptContinue | Continue

datatype ExceptionBlockState = Try | Catch | Finally | Done

fun stateNumber :: "ExceptionBlockState \<Rightarrow> nat" where
  "stateNumber Try = 0"
| "stateNumber Catch = 1"
| "stateNumber Finally = 2"
| "stateNumber Done = 3"

text \<open>\<^verbatim>\<open>state < s\<close> on a field that may be absent: \<^verbatim>\<open>undefined < s\<close> is false.\<close>

fun stateBelow :: "ExceptionBlockState option \<Rightarrow> ExceptionBlockState \<Rightarrow> bool" where
  "stateBelow None s = False"
| "stateBelow (Some t) s = (stateNumber t < stateNumber s)"

text \<open>
  A block is a JavaScript object: the interfaces \<^verbatim>\<open>ExceptionBlock\<close>, \<^verbatim>\<open>BreakBlock\<close> and
  \<^verbatim>\<open>ContinueBlock\<close> are views of it, and a field that an object literal does not set
  reads as \<^verbatim>\<open>undefined\<close> (\<open>None\<close>). \<^verbatim>\<open>labelSymbol\<close> is the field that the literal of
  \<^verbatim>\<open>beginScriptBreakBlock\<close> sets.
\<close>

record BlockScope =
  kind :: BlockKind
  state :: "ExceptionBlockState option"
  startLabel :: "int option"
  catchVariable :: "jsval option"
  catchLabel :: "int option"
  finallyLabel :: "int option"
  endLabel :: "int option"
  breakLabel :: "int option"
  labelText :: "string option"
  continueLabel :: "int option"
  labelSymbol :: "string option"

definition newBlock :: "BlockKind \<Rightarrow> BlockScope" where
  "newBlock k = \<lparr>kind = k, state = None, startLabel = None, catchVariable = None,
     catchLabel = None, finallyLabel = None, endLabel = None, breakLabel = None,
     labelText = None, continueLabel = None, labelSymbol = None\<rparr>"

datatype error = AssertionFailure | TypeError

section \<open>The generator's state\<close>

text \<open>
  Block objects are shared: the object that \<^verbatim>\<open>beginBlock\<close> pushes on \<^verbatim>\<open>blockStack\<close> is
  the one it stores in \<^verbatim>\<open>blocks\<close>, and \<^verbatim>\<open>beginCatchBlock\<close>, \<^verbatim>\<open>beginFinallyBlock\<close> and
  \<^verbatim>\<open>endExceptionBlock\<close> update it in place. So the objects live in a heap, \<^verbatim>\<open>blocks\<close> and
  \<^verbatim>\<open>blockStack\<close> hold addresses, and \<open>nextAddress\<close> is the next free one. The top of
  \<^verbatim>\<open>blockStack\<close> is the head of the list. \<^verbatim>\<open>labels\<close> and \<^verbatim>\<open>labelNumbers\<close> are arrays with
  holes (\<open>None\<close>), since they are written at indices beyond their length.
\<close>

record CodeGenerator =
  relatedLocation :: "TextRange option"
  locationStack :: "TextRange option list"
  nextLocalId :: nat
  parameters :: "(jsval \<times> TextRange option \<times> jsval) list"
  locals :: "jsval list"
  namedLocals :: "jsval list"
  functions' :: "jsval list"
  heap :: "nat \<Rightarrow> BlockScope"
  nextAddress :: nat
  blocks :: "nat list"
  blockStack :: "nat list"
  blockActions :: "BlockAction list"
  blockOffsets :: "nat list"
  hasProtectedRegions :: bool
  nextLabelId :: nat
  labelNumbers :: "nat option list"
  labels :: "int option list"
  operations :: "OpCode list"
  operationArguments :: "jsval list list"
  operationLocations :: "TextRange option list"

text \<open>\<^verbatim>\<open>xs[i] = v\<close> on a JavaScript array: beyond the length, the array grows and the
  indices in between are holes.\<close>

definition arraySet :: "'a option list \<Rightarrow> nat \<Rightarrow> 'a \<Rightarrow> 'a option list" where
  "arraySet xs i v =
     (if i < length xs then xs[i := Some v]
      else xs @ replicate (i - length xs) None @ [Some v])"

definition arrayGet :: "'a option list \<Rightarrow> nat \<Rightarrow> 'a option" where
  "arrayGet xs i = (if i < length xs then xs ! i else None)"

text \<open>\<^verbatim>\<open>args[i]\<close> of a rest parameter: \<^verbatim>\<open>undefined\<close> beyond its length.\<close>

definition arg :: "jsval list \<Rightarrow> nat \<Rightarrow> jsval" where
  "arg args i = (if i < length args then args ! i else Undefined)"

fun truthy :: "jsval \<Rightarrow> bool" where
  "truthy Undefined = False"
| "truthy Null = False"
| "truthy (Bool b) = b"
| "truthy (Num n) = (n \<noteq> 0)"
| "truthy (Str s) = (s \<noteq> [])"
| "truthy v = True"

fun labelValue :: "int option \<Rightarrow> jsval" where
  "labelValue None = Undefined"
| "labelValue (Some l) = Num l"

text \<open>\<^verbatim>\<open>String(n)\<close> for a case index or a local's number.\<close>

definition digitChar :: "nat \<Rightarrow> char" where
  "digitChar d = ''0123456789'' ! d"

fun digits :: "nat \<Rightarrow> string" where
  "digits n = (if n < 10 then [digitChar n] else digits (n div 10) @ [digitChar (n mod 10)])"

declare digits.simps [simp del]

section \<open>Recording\<close>

definition createGeneratedNode :: "string \<Rightarrow> jsval \<Rightarrow> 'a CodeGenerator_scheme \<Rightarrow> jsval" where
  "createGeneratedNode text content g = GeneratedNode text content (relatedLocation g)"

definition createLabel :: "jsval \<Rightarrow> 'a CodeGenerator_scheme \<Rightarrow> jsval" where
  "createLabel label g = GeneratedLabel label (relatedLocation g)"

definition addParameter :: "jsval \<Rightarrow> jsval \<Rightarrow> CodeGenerator \<Rightarrow> CodeGenerator" where
  "addParameter name flags g =
     g\<lparr>parameters := parameters g @ [(name, relatedLocation g, flags)]\<rparr>"

definition addFunction :: "jsval \<Rightarrow> CodeGenerator \<Rightarrow> CodeGenerator" where
  "addFunction func g = g\<lparr>functions' := functions' g @ [func]\<rparr>"

definition declareLocal :: "string option \<Rightarrow> CodeGenerator \<Rightarrow> jsval \<times> CodeGenerator" where
  "declareLocal name g =
     (case name of
        Some n \<Rightarrow>
          if n \<noteq> [] then
            (let localDeclarationName = createGeneratedNode n Undefined g
             in (localDeclarationName, g\<lparr>namedLocals := namedLocals g @ [localDeclarationName]\<rparr>))
          else
            (let localDeclarationName = createGeneratedNode (''__l'' @ digits (nextLocalId g)) Undefined g
             in (localDeclarationName,
                 g\<lparr>nextLocalId := Suc (nextLocalId g), locals := locals g @ [localDeclarationName]\<rparr>))
      | None \<Rightarrow>
          (let localDeclarationName = createGeneratedNode (''__l'' @ digits (nextLocalId g)) Undefined g
           in (localDeclarationName,
               g\<lparr>nextLocalId := Suc (nextLocalId g), locals := locals g @ [localDeclarationName]\<rparr>)))"

definition defineLabel :: "CodeGenerator \<Rightarrow> int \<times> CodeGenerator" where
  "defineLabel g =
     (let label = nextLabelId g
      in (int label, g\<lparr>nextLabelId := Suc label, labels := arraySet (labels g) label (-1)\<rparr>))"

text \<open>\<^verbatim>\<open>labels[label] = operations.length\<close>. With a negative label the assignment sets a
  property that is not an index; \<^verbatim>\<open>labels\<close> is only ever read by index, so the array of
  the model is unchanged.\<close>

definition markLabel :: "int \<Rightarrow> CodeGenerator \<Rightarrow> CodeGenerator" where
  "markLabel label g =
     (if 0 \<le> label then g\<lparr>labels := arraySet (labels g) (nat label) (int (length (operations g)))\<rparr>
      else g)"

text \<open>\<^verbatim>\<open>blockActions\<close>, \<^verbatim>\<open>blockOffsets\<close> and \<^verbatim>\<open>blocks\<close> are written together at the index
  \<^verbatim>\<open>blockActions.length\<close>, which appends to each.\<close>

definition beginBlock :: "BlockScope \<Rightarrow> CodeGenerator \<Rightarrow> nat \<times> CodeGenerator" where
  "beginBlock block g =
     (let index = length (blockActions g); a = nextAddress g
      in (index,
          g\<lparr>heap := (heap g)(a := block), nextAddress := Suc a,
            blockActions := blockActions g @ [Open],
            blockOffsets := blockOffsets g @ [length (operations g)],
            blocks := blocks g @ [a],
            blockStack := a # blockStack g\<rparr>))"

text \<open>\<^verbatim>\<open>blockStack.pop()\<close> of an empty stack gives \<^verbatim>\<open>undefined\<close>; every caller has asserted
  the kind of the top block before, so that it is never reached there.\<close>

definition endBlock :: "CodeGenerator \<Rightarrow> (nat \<times> CodeGenerator) option" where
  "endBlock g =
     (case blockStack g of
        [] \<Rightarrow> None
      | a # rest \<Rightarrow>
          Some (a, g\<lparr>blockStack := rest,
                     blockActions := blockActions g @ [Close],
                     blockOffsets := blockOffsets g @ [length (operations g)],
                     blocks := blocks g @ [a]\<rparr>))"

definition peekBlock :: "CodeGenerator \<Rightarrow> nat option" where
  "peekBlock g = (case blockStack g of [] \<Rightarrow> None | a # rest \<Rightarrow> Some a)"

definition peekBlockKind :: "CodeGenerator \<Rightarrow> BlockKind option" where
  "peekBlockKind g = (case peekBlock g of None \<Rightarrow> None | Some a \<Rightarrow> Some (kind (heap g a)))"

definition emit :: "OpCode \<Rightarrow> jsval list \<Rightarrow> CodeGenerator \<Rightarrow> CodeGenerator" where
  "emit code args0 g =
     (let args =
        (case arg args0 0 of
           Str text \<Rightarrow> [createGeneratedNode text (arg args0 1) g]
         | _ \<Rightarrow>
           (case arg args0 1 of
              Str text \<Rightarrow> [arg args0 0, createGeneratedNode text (arg args0 2) g]
            | _ \<Rightarrow> args0))
      in if code = Statement \<and> \<not> truthy (arg args 0) then g
         else g\<lparr>operations := operations g @ [code],
                operationArguments := operationArguments g @ [args],
                operationLocations := operationLocations g @ [relatedLocation g]\<rparr>)"

definition beginExceptionBlock :: "CodeGenerator \<Rightarrow> int \<times> CodeGenerator" where
  "beginExceptionBlock g =
     (let (startLabel', g1) = defineLabel g;
          (endLabel', g2) = defineLabel g1;
          g3 = markLabel startLabel' g2;
          (index, g4) = beginBlock ((newBlock Exception)
                  \<lparr>state := Some Try, startLabel := Some startLabel', endLabel := Some endLabel'\<rparr>) g3
      in (endLabel', g4\<lparr>hasProtectedRegions := True\<rparr>))"

definition beginCatchBlock :: "jsval \<Rightarrow> CodeGenerator \<Rightarrow> error + CodeGenerator" where
  "beginCatchBlock variable g =
     (if peekBlockKind g \<noteq> Some Exception then Inl AssertionFailure
      else case peekBlock g of
        None \<Rightarrow> Inl TypeError
      | Some a \<Rightarrow>
          if \<not> stateBelow (state (heap g a)) Catch then Inl AssertionFailure
          else
            (let g1 = emit Break [labelValue (endLabel (heap g a))] g;
                 (catchLabel', g2) = defineLabel g1;
                 g3 = markLabel catchLabel' g2;
                 g4 = g3\<lparr>heap := (heap g3)(a := (heap g3 a)
                        \<lparr>state := Some Catch, catchVariable := Some variable,
                         catchLabel := Some catchLabel'\<rparr>)\<rparr>
             in Inr (emit Statement
                       [Str ''${variable} = __state.error;'', Obj [(''variable'', variable)]] g4)))"

definition beginFinallyBlock :: "CodeGenerator \<Rightarrow> error + CodeGenerator" where
  "beginFinallyBlock g =
     (if peekBlockKind g \<noteq> Some Exception then Inl AssertionFailure
      else case peekBlock g of
        None \<Rightarrow> Inl TypeError
      | Some a \<Rightarrow>
          if \<not> stateBelow (state (heap g a)) Finally then Inl AssertionFailure
          else
            (let g1 = emit Break [labelValue (endLabel (heap g a))] g;
                 (finallyLabel', g2) = defineLabel g1;
                 g3 = markLabel finallyLabel' g2
             in Inr (g3\<lparr>heap := (heap g3)(a := (heap g3 a)
                        \<lparr>state := Some Finally, finallyLabel := Some finallyLabel'\<rparr>)\<rparr>)))"

text \<open>\<^verbatim>\<open>markLabel(exception.endLabel)\<close> with an absent \<^verbatim>\<open>endLabel\<close> would set the property
  \<^verbatim>\<open>"undefined"\<close>, which is not an index.\<close>

definition endExceptionBlock :: "CodeGenerator \<Rightarrow> error + CodeGenerator" where
  "endExceptionBlock g =
     (if peekBlockKind g \<noteq> Some Exception then Inl AssertionFailure
      else case endBlock g of
        None \<Rightarrow> Inl TypeError
      | Some (a, g0) \<Rightarrow>
          (let exception = heap g0 a;
               g1 = (if stateBelow (state exception) Finally
                     then emit Break [labelValue (endLabel exception)] g0
                     else emit Endfinally [] g0);
               g2 = (case endLabel exception of Some l \<Rightarrow> markLabel l g1 | None \<Rightarrow> g1)
           in Inr (g2\<lparr>heap := (heap g2)(a := (heap g2 a)\<lparr>state := Some Done\<rparr>)\<rparr>)))"

definition beginScriptContinueBlock :: "string option \<Rightarrow> CodeGenerator \<Rightarrow> CodeGenerator" where
  "beginScriptContinueBlock text g =
     snd (beginBlock ((newBlock ScriptContinue)
            \<lparr>labelText := text, breakLabel := Some (-1), continueLabel := Some (-1)\<rparr>) g)"

definition endScriptContinueBlock :: "CodeGenerator \<Rightarrow> error + CodeGenerator" where
  "endScriptContinueBlock g =
     (if peekBlockKind g \<noteq> Some ScriptContinue then Inl AssertionFailure
      else case endBlock g of None \<Rightarrow> Inl TypeError | Some (a, g0) \<Rightarrow> Inr g0)"

definition beginScriptBreakBlock :: "string option \<Rightarrow> CodeGenerator \<Rightarrow> CodeGenerator" where
  "beginScriptBreakBlock text g =
     snd (beginBlock ((newBlock ScriptBreak)
            \<lparr>labelSymbol := text, breakLabel := Some (-1)\<rparr>) g)"

definition endScriptBreakBlock :: "CodeGenerator \<Rightarrow> error + CodeGenerator" where
  "endScriptBreakBlock g =
     (if peekBlockKind g \<noteq> Some ScriptBreak then Inl AssertionFailure
      else case endBlock g of None \<Rightarrow> Inl TypeError | Some (a, g0) \<Rightarrow> Inr g0)"

definition beginContinueBlock :: "int \<Rightarrow> string option \<Rightarrow> CodeGenerator \<Rightarrow> int \<times> CodeGenerator" where
  "beginContinueBlock continueLabel' text g =
     (let (breakLabel', g1) = defineLabel g
      in (breakLabel',
          snd (beginBlock ((newBlock Continue)
                 \<lparr>labelText := text, breakLabel := Some breakLabel',
                  continueLabel := Some continueLabel'\<rparr>) g1)))"

text \<open>\<^verbatim>\<open>if (breakLabel > 0)\<close> is false for an absent field.\<close>

definition markBreakLabel :: "int option \<Rightarrow> CodeGenerator \<Rightarrow> CodeGenerator" where
  "markBreakLabel l g = (case l of Some b \<Rightarrow> if 0 < b then markLabel b g else g | None \<Rightarrow> g)"

definition endContinueBlock :: "CodeGenerator \<Rightarrow> error + CodeGenerator" where
  "endContinueBlock g =
     (if peekBlockKind g \<noteq> Some Continue then Inl AssertionFailure
      else case endBlock g of
        None \<Rightarrow> Inl TypeError
      | Some (a, g0) \<Rightarrow> Inr (markBreakLabel (breakLabel (heap g0 a)) g0))"

definition beginBreakBlock :: "string option \<Rightarrow> CodeGenerator \<Rightarrow> int \<times> CodeGenerator" where
  "beginBreakBlock text g =
     (let (breakLabel', g1) = defineLabel g
      in (breakLabel',
          snd (beginBlock ((newBlock BreakKind)
                 \<lparr>labelText := text, breakLabel := Some breakLabel'\<rparr>) g1)))"

definition endBreakBlock :: "CodeGenerator \<Rightarrow> error + CodeGenerator" where
  "endBreakBlock g =
     (if peekBlockKind g \<noteq> Some BreakKind then Inl AssertionFailure
      else case endBlock g of
        None \<Rightarrow> Inl TypeError
      | Some (a, g0) \<Rightarrow> Inr (markBreakLabel (breakLabel (heap g0 a)) g0))"

fun supportsBreak :: "BlockScope \<Rightarrow> bool" where
  "supportsBreak block =
     (case kind block of
        ScriptBreak \<Rightarrow> True | ScriptContinue \<Rightarrow> True | BreakKind \<Rightarrow> True | Continue \<Rightarrow> True
      | Exception \<Rightarrow> False)"

fun supportsContinue :: "BlockScope \<Rightarrow> bool" where
  "supportsContinue block =
     (case kind block of ScriptContinue \<Rightarrow> True | Continue \<Rightarrow> True | _ \<Rightarrow> False)"

text \<open>\<^verbatim>\<open>!labelText\<close> holds of an absent and of an empty label text.\<close>

fun noLabelText :: "string option \<Rightarrow> bool" where
  "noLabelText None = True"
| "noLabelText (Some t) = (t = [])"

text \<open>The loops of \<^verbatim>\<open>findBreakTarget\<close> and \<^verbatim>\<open>findContinueTarget\<close> run from the top of the
  stack down. The first returns \<^verbatim>\<open>0\<close> after its loop; the second has no statement after
  its loop, and a function that ends without \<^verbatim>\<open>return\<close> returns \<^verbatim>\<open>undefined\<close>.\<close>

fun findBreakTargetFrom :: "(nat \<Rightarrow> BlockScope) \<Rightarrow> nat list \<Rightarrow> string option \<Rightarrow> jsval" where
  "findBreakTargetFrom h [] text = Num 0"
| "findBreakTargetFrom h (a # rest) text =
     (if supportsBreak (h a) \<and> (noLabelText text \<or> labelText (h a) = text)
      then labelValue (breakLabel (h a))
      else findBreakTargetFrom h rest text)"

definition findBreakTarget :: "string option \<Rightarrow> CodeGenerator \<Rightarrow> jsval" where
  "findBreakTarget text g = findBreakTargetFrom (heap g) (blockStack g) text"

fun findContinueTargetFrom :: "(nat \<Rightarrow> BlockScope) \<Rightarrow> nat list \<Rightarrow> string option \<Rightarrow> jsval" where
  "findContinueTargetFrom h [] text = Undefined"
| "findContinueTargetFrom h (a # rest) text =
     (if supportsContinue (h a) \<and> (noLabelText text \<or> labelText (h a) = text)
      then labelValue (continueLabel (h a))
      else findContinueTargetFrom h rest text)"

definition findContinueTarget :: "string option \<Rightarrow> CodeGenerator \<Rightarrow> jsval" where
  "findContinueTarget text g = findContinueTargetFrom (heap g) (blockStack g) text"

fun compound :: "SyntaxKind \<Rightarrow> bool" where
  "compound Block = True"
| "compound FunctionBlock = True"
| "compound TryBlock = True"
| "compound CatchBlock = True"
| "compound FinallyBlock = True"
| "compound CaseClause = True"
| "compound DefaultClause = True"
| "compound (OtherKind k) = False"

text \<open>\<^verbatim>\<open>node.kind\<close> throws on \<^verbatim>\<open>undefined\<close> and \<^verbatim>\<open>null\<close>; on any other value that is not a
  node of a compound kind the \<^verbatim>\<open>switch\<close> falls through to \<^verbatim>\<open>emit\<close>.\<close>

fun emitNode :: "jsval \<Rightarrow> CodeGenerator \<Rightarrow> error + CodeGenerator"
  and emitNodes :: "jsval list \<Rightarrow> CodeGenerator \<Rightarrow> error + CodeGenerator" where
  "emitNode Undefined g = Inl TypeError"
| "emitNode Null g = Inl TypeError"
| "emitNode (SourceNode k st i statements) g =
     (if compound k then emitNodes statements g
      else Inr (emit Statement [SourceNode k st i statements] g))"
| "emitNode node g = Inr (emit Statement [node] g)"
| "emitNodes [] g = Inr g"
| "emitNodes (node # rest) g =
     (case emitNode node g of Inl e \<Rightarrow> Inl e | Inr g' \<Rightarrow> emitNodes rest g')"

definition setLocation :: "TextRange option \<Rightarrow> CodeGenerator \<Rightarrow> CodeGenerator" where
  "setLocation location g =
     (case location of None \<Rightarrow> g | Some l \<Rightarrow> g\<lparr>relatedLocation := Some l\<rparr>)"

definition pushLocation :: "TextRange option \<Rightarrow> CodeGenerator \<Rightarrow> CodeGenerator" where
  "pushLocation location g =
     setLocation location (g\<lparr>locationStack := relatedLocation g # locationStack g\<rparr>)"

definition popLocation :: "CodeGenerator \<Rightarrow> CodeGenerator" where
  "popLocation g =
     (case locationStack g of
        [] \<Rightarrow> g
      | l # rest \<Rightarrow> setLocation l (g\<lparr>locationStack := rest\<rparr>))"

definition cacheExpression :: "jsval \<Rightarrow> CodeGenerator \<Rightarrow> jsval \<times> CodeGenerator" where
  "cacheExpression node g =
     (let (local, g1) = declareLocal None g
      in (local,
          emit Statement
            [createGeneratedNode ''${local} = ${node};''
               (Obj [(''local'', local), (''node'', node)]) g1] g1))"

definition emptyGenerator :: CodeGenerator where
  "emptyGenerator =
     \<lparr>relatedLocation = None, locationStack = [], nextLocalId = 0, parameters = [],
      locals = [], namedLocals = [], functions' = [],
      heap = (\<lambda>a. newBlock Exception), nextAddress = 0,
      blocks = [], blockStack = [], blockActions = [], blockOffsets = [],
      hasProtectedRegions = False, nextLabelId = 1, labelNumbers = [], labels = [],
      operations = [], operationArguments = [], operationLocations = []\<rparr>"

text \<open>The factory marks the entry point before it returns the handle.\<close>

definition createCodeGenerator :: CodeGenerator where
  "createCodeGenerator =
     (let (label, g) = defineLabel emptyGenerator in markLabel label g)"

subsection \<open>Recordings\<close>

text \<open>A recording is the sequence of calls that the visitor makes on the handle before it
  finalizes. The queries (\<^verbatim>\<open>findBreakTarget\<close>, \<^verbatim>\<open>findContinueTarget\<close>, the
  \<^verbatim>\<open>createInline...\<close> factories) leave the state as it is and are not part of it.\<close>

datatype call =
    AddFunction jsval
  | AddParameter jsval jsval
  | DeclareLocal "string option"
  | DefineLabel
  | MarkLabel int
  | BeginExceptionBlock
  | BeginCatchBlock jsval
  | BeginFinallyBlock
  | EndExceptionBlock
  | BeginScriptContinueBlock "string option"
  | EndScriptContinueBlock
  | BeginScriptBreakBlock "string option"
  | EndScriptBreakBlock
  | BeginContinueBlock int "string option"
  | EndContinueBlock
  | BeginBreakBlock "string option"
  | EndBreakBlock
  | Emit OpCode "jsval list"
  | EmitNode jsval
  | PushLocation "TextRange option"
  | PopLocation
  | SetLocation "TextRange option"
  | CacheExpression jsval

fun exec :: "call \<Rightarrow> CodeGenerator \<Rightarrow> error + CodeGenerator" where
  "exec (AddFunction f) g = Inr (addFunction f g)"
| "exec (AddParameter name flags) g = Inr (addParameter name flags g)"
| "exec (DeclareLocal name) g = Inr (snd (declareLocal name g))"
| "exec DefineLabel g = Inr (snd (defineLabel g))"
| "exec (MarkLabel l) g = Inr (markLabel l g)"
| "exec BeginExceptionBlock g = Inr (snd (beginExceptionBlock g))"
| "exec (BeginCatchBlock v) g = beginCatchBlock v g"
| "exec BeginFinallyBlock g = beginFinallyBlock g"
| "exec EndExceptionBlock g = endExceptionBlock g"
| "exec (BeginScriptContinueBlock t) g = Inr (beginScriptContinueBlock t g)"
| "exec EndScriptContinueBlock g = endScriptContinueBlock g"
| "exec (BeginScriptBreakBlock t) g = Inr (beginScriptBreakBlock t g)"
| "exec EndScriptBreakBlock g = endScriptBreakBlock g"
| "exec (BeginContinueBlock l t) g = Inr (snd (beginContinueBlock l t g))"
| "exec EndContinueBlock g = endContinueBlock g"
| "exec (BeginBreakBlock t) g = Inr (snd (beginBreakBlock t g))"
| "exec EndBreakBlock g = endBreakBlock g"
| "exec (Emit code args) g = Inr (emit code args g)"
| "exec (EmitNode node) g = emitNode node g"
| "exec (PushLocation l) g = Inr (pushLocation l g)"
| "exec PopLocation g = Inr (popLocation g)"
| "exec (SetLocation l) g = Inr (setLocation l g)"
| "exec (CacheExpression node) g = Inr (snd (cacheExpression node g))"

fun run :: "call list \<Rightarrow> CodeGenerator \<Rightarrow> error + CodeGenerator" where
  "run [] g = Inr g"
| "run (c # cs) g = (case exec c g of Inl e \<Rightarrow> Inl e | Inr g' \<Rightarrow> run cs g')"

section \<open>Finalization\<close>

text \<open>
  \<^verbatim>\<open>buildFunctionBody\<close> is a closure inside the generator's closure: its variables extend
  the generator's. A case clause holds a reference to the array \<^verbatim>\<open>statements\<close> that is
  current when it is created, and later pushes on that array show in the clause; so the
  arrays live in a store of buffers, \<^verbatim>\<open>statements\<close> is the address of the current one
  and a clause keeps its label expression, the address of its buffer and its location.
  The first buffer belongs to no clause. \<^verbatim>\<open>exceptionStack\<close> and \<^verbatim>\<open>statementsStack\<close> are
  declared and never used. The templates are written without their line breaks and
  indentation.
\<close>

record Assembler = CodeGenerator +
  clauses :: "(jsval \<times> nat \<times> TextRange option) list"
  buffers :: "nat \<Rightarrow> jsval list"
  nextBuffer :: nat
  statements :: nat
  blockIndex :: nat
  instructionWasAbrupt :: bool
  instructionWasCompletion :: bool

definition breakTemplate :: string where
  \<open>breakTemplate = ''return ["break", ${label}];''\<close>

definition returnValueTemplate :: string where
  \<open>returnValueTemplate = ''return ["return", ${expression}];''\<close>

definition returnTemplate :: string where
  \<open>returnTemplate = ''return ["return"];''\<close>

definition yieldValueTemplate :: string where
  \<open>yieldValueTemplate = ''return ["yield", ${expression}];''\<close>

definition yieldTemplate :: string where
  \<open>yieldTemplate = ''return ["yield"];''\<close>

definition endfinallyTemplate :: string where
  \<open>endfinallyTemplate = ''return ["endfinally"];''\<close>

definition fixupTemplate :: string where
  "fixupTemplate = ''__state.label = ${label};''"

definition trysTemplate :: string where
  "trysTemplate = ''__state.trys = [];''"

definition pushTemplate :: string where
  "pushTemplate = ''__state.trys.push([${startLabel},${catchLabel},${finallyLabel},${endLabel}])''"

definition caseTemplate :: string where
  "caseTemplate = ''case ${label}: @'' @ ''{statements}''"

definition createInlineBreak :: "jsval \<Rightarrow> 'a CodeGenerator_scheme \<Rightarrow> jsval" where
  "createInlineBreak label g =
     createGeneratedNode breakTemplate (Obj [(''label'', createLabel label g)]) g"

definition createInlineReturn :: "jsval \<Rightarrow> 'a CodeGenerator_scheme \<Rightarrow> jsval" where
  "createInlineReturn expression g =
     (if truthy expression
      then createGeneratedNode returnValueTemplate (Obj [(''expression'', expression)]) g
      else createGeneratedNode returnTemplate Undefined g)"

definition createYield :: "jsval \<Rightarrow> 'a CodeGenerator_scheme \<Rightarrow> jsval" where
  "createYield expression g =
     (if truthy expression
      then createGeneratedNode yieldValueTemplate (Obj [(''expression'', expression)]) g
      else createGeneratedNode yieldTemplate Undefined g)"

text \<open>\<^verbatim>\<open>isStatement\<close> is a helper of the compiler; a parser node carries its answer, an
  expression statement of the factory is a statement, and no other value is.
  \<^verbatim>\<open>emit\<close> records a \<^verbatim>\<open>Statement\<close> only with a truthy payload, so that
  \<^verbatim>\<open>writeStatement\<close> never reads the kind of \<^verbatim>\<open>undefined\<close> or \<^verbatim>\<open>null\<close>.\<close>

fun isStatement :: "jsval \<Rightarrow> bool" where
  "isStatement (SourceNode k st i children) = st"
| "isStatement (ExpressionStatement e l) = True"
| "isStatement v = False"

fun isGeneratedNode :: "jsval \<Rightarrow> bool" where
  "isGeneratedNode (GeneratedNode text content l) = True"
| "isGeneratedNode v = False"

definition writeStatement :: "jsval \<Rightarrow> Assembler \<Rightarrow> Assembler" where
  "writeStatement node a =
     (let node' = (if \<not> isStatement node \<and> \<not> isGeneratedNode node
                   then ExpressionStatement node (relatedLocation a) else node)
      in a\<lparr>buffers := (buffers a)(statements a := buffers a (statements a) @ [node'])\<rparr>)"

definition writeAssign :: "jsval \<Rightarrow> jsval \<Rightarrow> Assembler \<Rightarrow> Assembler" where
  "writeAssign left right a =
     writeStatement (createGeneratedNode ''${left} = ${right}''
                       (Obj [(''left'', left), (''right'', right)]) a) a"

definition writeBreak :: "jsval \<Rightarrow> Assembler \<Rightarrow> Assembler" where
  "writeBreak label a =
     (let a1 = a\<lparr>instructionWasAbrupt := True\<rparr> in writeStatement (createInlineBreak label a1) a1)"

definition writeBrTrue :: "jsval \<Rightarrow> jsval \<Rightarrow> Assembler \<Rightarrow> Assembler" where
  "writeBrTrue label condition a =
     (let statement = createInlineBreak label a
      in writeStatement (createGeneratedNode ''if (${condition}) { ${statement} }''
                           (Obj [(''condition'', condition), (''statement'', statement)]) a) a)"

definition writeBrFalse :: "jsval \<Rightarrow> jsval \<Rightarrow> Assembler \<Rightarrow> Assembler" where
  "writeBrFalse label condition a =
     (let statement = createInlineBreak label a
      in writeStatement (createGeneratedNode ''if (!(${condition})) { ${statement} }''
                           (Obj [(''condition'', condition), (''statement'', statement)]) a) a)"

definition writeYield :: "jsval \<Rightarrow> Assembler \<Rightarrow> Assembler" where
  "writeYield expression a =
     (let a1 = a\<lparr>instructionWasAbrupt := True\<rparr> in writeStatement (createYield expression a1) a1)"

definition writeReturn :: "jsval \<Rightarrow> Assembler \<Rightarrow> Assembler" where
  "writeReturn expression a =
     (let a1 = a\<lparr>instructionWasCompletion := True\<rparr>
      in writeStatement (createInlineReturn expression a1) a1)"

definition writeThrow :: "jsval \<Rightarrow> Assembler \<Rightarrow> Assembler" where
  "writeThrow expression a =
     (let a1 = a\<lparr>instructionWasCompletion := True\<rparr>
      in writeStatement (createGeneratedNode ''throw ${expression};''
                           (Obj [(''expression'', expression)]) a1) a1)"

definition writeEndfinally :: "Assembler \<Rightarrow> Assembler" where
  "writeEndfinally a =
     (let a1 = a\<lparr>instructionWasAbrupt := True\<rparr>
      in writeStatement (createGeneratedNode endfinallyTemplate Undefined a1) a1)"

text \<open>The first loop of \<^verbatim>\<open>ensureLabels\<close>, over the indices of \<^verbatim>\<open>labels\<close>: it returns
  \<^verbatim>\<open>labelNumbers\<close> and \<^verbatim>\<open>createCase\<close>.\<close>

fun bindLabels ::
  "int option list \<Rightarrow> nat \<Rightarrow> nat \<Rightarrow> nat list \<Rightarrow> nat option list \<times> bool \<Rightarrow> nat option list \<times> bool"
where
  "bindLabels ls operationIndex n [] acc = acc"
| "bindLabels ls operationIndex n (label # rest) acc =
     bindLabels ls operationIndex n rest
       (if ls ! label = Some (int operationIndex)
        then (arraySet (fst acc) label n, True) else acc)"

definition ensureLabels :: "nat \<Rightarrow> Assembler \<Rightarrow> Assembler" where
  "ensureLabels operationIndex a =
     (let (numbers, createCase) =
            bindLabels (labels a) operationIndex (length (clauses a))
              [0..<length (labels a)] (labelNumbers a, False);
          a1 = a\<lparr>labelNumbers := numbers\<rparr>
      in if createCase then
           (let labelNumber = length (clauses a1);
                labelExpression = createGeneratedNode (digits labelNumber) Undefined a1;
                a2 = (if \<not> instructionWasAbrupt a1 \<and> \<not> instructionWasCompletion a1
                         \<and> 0 < operationIndex
                      then writeStatement
                             (createGeneratedNode fixupTemplate
                                (Obj [(''label'', createGeneratedNode (digits labelNumber) Undefined a1)])
                                a1) a1
                      else a1);
                a3 = a2\<lparr>statements := nextBuffer a2,
                        buffers := (buffers a2)(nextBuffer a2 := []),
                        nextBuffer := Suc (nextBuffer a2),
                        instructionWasAbrupt := False,
                        instructionWasCompletion := False\<rparr>;
                a4 = a3\<lparr>clauses := clauses a3 @ [(labelExpression, statements a3, relatedLocation a3)]\<rparr>
            in if labelNumber = 0 \<and> hasProtectedRegions a4
               then writeStatement (createGeneratedNode trysTemplate Undefined a4) a4
               else a4)
         else a1)"

text \<open>\<^verbatim>\<open>exception.catchLabel > 0 && createLabel(exception.catchLabel)\<close>: \<^verbatim>\<open>false\<close> when the
  field is absent or not positive.\<close>

definition optionalLabel :: "int option \<Rightarrow> Assembler \<Rightarrow> jsval" where
  "optionalLabel l a =
     (case l of None \<Rightarrow> Bool False
      | Some c \<Rightarrow> if 0 < c then createLabel (Num c) a else Bool False)"

definition tryPush :: "BlockScope \<Rightarrow> Assembler \<Rightarrow> jsval" where
  "tryPush exception a =
     createGeneratedNode pushTemplate
       (Obj [(''startLabel'', createLabel (labelValue (startLabel exception)) a),
             (''catchLabel'', optionalLabel (catchLabel exception) a),
             (''finallyLabel'', optionalLabel (finallyLabel exception) a),
             (''endLabel'', createLabel (labelValue (endLabel exception)) a)]) a"

definition syncBlock :: "Assembler \<Rightarrow> Assembler" where
  "syncBlock a =
     (let block = blocks a ! blockIndex a;
          a1 = (if blockActions a ! blockIndex a = Open \<and> kind (heap a block) = Exception
                then writeStatement (tryPush (heap a block) a) a else a)
      in a1\<lparr>blockIndex := Suc (blockIndex a1)\<rparr>)"

text \<open>The first loop of \<^verbatim>\<open>writeOperation\<close>. An offset that is missing compares false, as
  \<^verbatim>\<open>undefined <= operationIndex\<close> does.\<close>

function syncBlocks :: "nat \<Rightarrow> Assembler \<Rightarrow> Assembler" where
  "syncBlocks operationIndex a =
     (if blockIndex a < length (blockActions a) \<and> blockIndex a < length (blockOffsets a)
         \<and> blockOffsets a ! blockIndex a \<le> operationIndex
      then syncBlocks operationIndex (syncBlock a)
      else a)"
  by pat_completeness auto
termination
  by (relation "measure (\<lambda>(i, a). length (blockActions a) - blockIndex a)")
     (auto simp: syncBlock_def writeStatement_def Let_def)

declare syncBlocks.simps [simp del]

definition writeOperation :: "nat \<Rightarrow> OpCode \<Rightarrow> jsval list \<Rightarrow> Assembler \<Rightarrow> Assembler" where
  "writeOperation operationIndex code args a =
     (let a1 = syncBlocks operationIndex a
      in if instructionWasAbrupt a1 \<or> instructionWasCompletion a1 then a1
         else
           (let a2 = a1\<lparr>instructionWasAbrupt := False, instructionWasCompletion := False\<rparr>
            in case code of
                 Statement \<Rightarrow> writeStatement (arg args 0) a2
               | Assign \<Rightarrow> writeAssign (arg args 0) (arg args 1) a2
               | Break \<Rightarrow> writeBreak (arg args 0) a2
               | BrTrue \<Rightarrow> writeBrTrue (arg args 0) (arg args 1) a2
               | BrFalse \<Rightarrow> writeBrFalse (arg args 0) (arg args 1) a2
               | Yield \<Rightarrow> writeYield (arg args 0) a2
               | Return \<Rightarrow> writeReturn (arg args 0) a2
               | Throw \<Rightarrow> writeThrow (arg args 0) a2
               | Endfinally \<Rightarrow> writeEndfinally a2))"

text \<open>One turn of the loop of \<^verbatim>\<open>buildFunctionBody\<close>. \<^verbatim>\<open>operations\<close>,
  \<^verbatim>\<open>operationArguments\<close> and \<^verbatim>\<open>operationLocations\<close> are written together by \<^verbatim>\<open>emit\<close>.\<close>

definition operationStep :: "Assembler \<Rightarrow> nat \<Rightarrow> Assembler" where
  "operationStep a operationIndex =
     (let code = operations a ! operationIndex;
          args = operationArguments a ! operationIndex;
          a1 = a\<lparr>relatedLocation := operationLocations a ! operationIndex\<rparr>
      in writeOperation operationIndex code args (ensureLabels operationIndex a1))"

definition startAssembler :: "CodeGenerator \<Rightarrow> Assembler" where
  "startAssembler g =
     CodeGenerator.extend g
       (Assembler.fields [] (\<lambda>b. []) 1 0 0 False False)"

definition assemble :: "CodeGenerator \<Rightarrow> Assembler" where
  "assemble g =
     (let a = foldl operationStep (startAssembler g) [0..<length (operations g)];
          a1 = ensureLabels (length (operations g)) a
      in if \<not> instructionWasCompletion a1 then writeReturn Undefined a1 else a1)"

text \<open>The clauses as the caller sees them: each with the final contents of its buffer.\<close>

definition clauseNode :: "Assembler \<Rightarrow> jsval \<times> nat \<times> TextRange option \<Rightarrow> jsval" where
  "clauseNode a c =
     (case c of (labelExpression, b, l) \<Rightarrow>
        GeneratedNode caseTemplate
          (Obj [(''label'', labelExpression), (''statements'', Arr (buffers a b))]) l)"

definition buildFunctionBody :: "CodeGenerator \<Rightarrow> jsval list \<times> CodeGenerator" where
  "buildFunctionBody g =
     (let a = assemble g in (map (clauseNode a) (clauses a), CodeGenerator.truncate a))"

section \<open>Notions used in the statements and proofs\<close>

text \<open>The state after \<^verbatim>\<open>blockStack.pop()\<close> and the three writes of \<^verbatim>\<open>endBlock\<close>.\<close>

definition popped :: "CodeGenerator \<Rightarrow> CodeGenerator" where
  "popped g = g\<lparr>blockStack := tl (blockStack g),
                 blockActions := blockActions g @ [Close],
                 blockOffsets := blockOffsets g @ [length (operations g)],
                 blocks := blocks g @ [hd (blockStack g)]\<rparr>"

text \<open>Every address on the live stack is allocated, and the two script-level literals are
  the only source of script blocks, with \<^verbatim>\<open>breakLabel: -1\<close>.\<close>

definition scriptLabels :: "CodeGenerator \<Rightarrow> bool" where
  "scriptLabels g \<longleftrightarrow>
     (\<forall>a \<in> set (blockStack g). a < nextAddress g) \<and>
     (\<forall>a < nextAddress g. kind (heap g a) = ScriptBreak \<or> kind (heap g a) = ScriptContinue
        \<longrightarrow> breakLabel (heap g a) = Some (- 1))"

definition labelAt :: "int option list \<Rightarrow> nat \<Rightarrow> bool" where
  "labelAt ls i \<longleftrightarrow> Some (int i) \<in> set ls"

definition numbered :: "int option list \<Rightarrow> nat \<Rightarrow> nat \<Rightarrow> nat option list \<Rightarrow> nat option list" where
  "numbered ls i n numbers = fst (bindLabels ls i n [0..<length ls] (numbers, False))"

definition fixup :: "nat \<Rightarrow> TextRange option \<Rightarrow> jsval" where
  "fixup n l = GeneratedNode fixupTemplate (Obj [(''label'', GeneratedNode (digits n) Undefined l)]) l"

definition closedBuffers :: "nat \<Rightarrow> Assembler \<Rightarrow> nat \<Rightarrow> jsval list" where
  "closedBuffers i a =
     (if \<not> instructionWasAbrupt a \<and> \<not> instructionWasCompletion a \<and> 0 < i
      then (buffers a)(statements a := buffers a (statements a) @
              [fixup (length (clauses a)) (relatedLocation a)])
      else buffers a)"

definition wrapped :: "jsval \<Rightarrow> TextRange option \<Rightarrow> jsval" where
  "wrapped node l =
     (if \<not> isStatement node \<and> \<not> isGeneratedNode node then ExpressionStatement node l else node)"

definition slotAt :: "int option \<Rightarrow> TextRange option \<Rightarrow> jsval" where
  "slotAt x l = (case x of None \<Rightarrow> Bool False
      | Some c \<Rightarrow> if 0 < c then GeneratedLabel (Num c) l else Bool False)"

definition pushAt :: "BlockScope \<Rightarrow> TextRange option \<Rightarrow> jsval" where
  "pushAt b l =
     GeneratedNode pushTemplate
       (Obj [(''startLabel'', GeneratedLabel (labelValue (startLabel b)) l),
             (''catchLabel'', slotAt (catchLabel b) l),
             (''finallyLabel'', slotAt (finallyLabel b) l),
             (''endLabel'', GeneratedLabel (labelValue (endLabel b)) l)]) l"

definition openException :: "'a CodeGenerator_scheme \<Rightarrow> nat \<Rightarrow> bool" where
  "openException a k \<longleftrightarrow> blockActions a ! k = Open \<and> kind (heap a (blocks a ! k)) = Exception"

definition isAbrupt :: "OpCode \<Rightarrow> bool" where
  "isAbrupt code \<longleftrightarrow> code = Break \<or> code = Yield \<or> code = Endfinally"

definition isCompletion :: "OpCode \<Rightarrow> bool" where
  "isCompletion code \<longleftrightarrow> code = Return \<or> code = Throw"

definition inlineBreak :: "jsval \<Rightarrow> TextRange option \<Rightarrow> jsval" where
  "inlineBreak label l = GeneratedNode breakTemplate (Obj [(''label'', GeneratedLabel label l)]) l"

definition opStatement :: "OpCode \<Rightarrow> jsval list \<Rightarrow> TextRange option \<Rightarrow> jsval" where
  "opStatement code args l =
     (case code of
        Statement \<Rightarrow> wrapped (arg args 0) l
      | Assign \<Rightarrow> GeneratedNode ''${left} = ${right}''
                    (Obj [(''left'', arg args 0), (''right'', arg args 1)]) l
      | Break \<Rightarrow> inlineBreak (arg args 0) l
      | BrTrue \<Rightarrow> GeneratedNode ''if (${condition}) { ${statement} }''
          (Obj [(''condition'', arg args 1), (''statement'', inlineBreak (arg args 0) l)]) l
      | BrFalse \<Rightarrow> GeneratedNode ''if (!(${condition})) { ${statement} }''
          (Obj [(''condition'', arg args 1), (''statement'', inlineBreak (arg args 0) l)]) l
      | Yield \<Rightarrow> (if truthy (arg args 0)
                   then GeneratedNode yieldValueTemplate (Obj [(''expression'', arg args 0)]) l
                   else GeneratedNode yieldTemplate Undefined l)
      | Return \<Rightarrow> (if truthy (arg args 0)
                   then GeneratedNode returnValueTemplate (Obj [(''expression'', arg args 0)]) l
                   else GeneratedNode returnTemplate Undefined l)
      | Throw \<Rightarrow> GeneratedNode ''throw ${expression};'' (Obj [(''expression'', arg args 0)]) l
      | Endfinally \<Rightarrow> GeneratedNode endfinallyTemplate Undefined l)"

definition appended :: "jsval list \<Rightarrow> Assembler \<Rightarrow> Assembler" where
  "appended xs a = a\<lparr>buffers := (buffers a)(statements a := buffers a (statements a) @ xs)\<rparr>"

text \<open>What the loop of block events does in one call: it moves \<open>blockIndex\<close> to some \<open>k\<close>
  past events of offset at most \<open>i\<close>, and appends the pushes of the exception blocks
  opened in between.\<close>

definition pendingEvent :: "nat \<Rightarrow> Assembler \<Rightarrow> nat \<Rightarrow> bool" where
  "pendingEvent i a j \<longleftrightarrow>
     j < length (blockActions a) \<and> j < length (blockOffsets a) \<and> blockOffsets a ! j \<le> i"

definition syncedTo :: "nat \<Rightarrow> Assembler \<Rightarrow> nat \<Rightarrow> bool" where
  "syncedTo i a k \<longleftrightarrow>
     blockIndex a \<le> k
     \<and> (\<forall>j. blockIndex a \<le> j \<and> j < k \<longrightarrow> pendingEvent i a j)
     \<and> \<not> pendingEvent i a k
     \<and> syncBlocks i a =
         (appended (map (\<lambda>j. pushAt (heap a (blocks a ! j)) (relatedLocation a))
                      (filter (openException a) [blockIndex a..<k])) a)\<lparr>blockIndex := k\<rparr>"

definition after :: "CodeGenerator \<Rightarrow> nat \<Rightarrow> Assembler" where
  "after g m = foldl operationStep (startAssembler g) [0..<m]"

definition numberedClauses :: "Assembler \<Rightarrow> bool" where
  "numberedClauses a \<longleftrightarrow>
     nextBuffer a = Suc (length (clauses a)) \<and> statements a = length (clauses a)
     \<and> (\<forall>k < length (clauses a).
           \<exists>l. clauses a ! k = (GeneratedNode (digits k) Undefined l, Suc k, l))"

definition entryBound :: "CodeGenerator \<Rightarrow> bool" where
  "entryBound g \<longleftrightarrow>
     2 \<le> nextLabelId g
     \<and> (\<exists>v. arrayGet (labels g) 1 = Some v \<and> 0 \<le> v \<and> v \<le> int (length (operations g)))"

text \<open>The recording with other operations and arguments.\<close>

definition setOperations ::
  "OpCode list \<Rightarrow> jsval list list \<Rightarrow> 'a CodeGenerator_scheme \<Rightarrow> 'a CodeGenerator_scheme" where
  "setOperations ops args g = g\<lparr>operations := ops, operationArguments := args\<rparr>"

definition suppressing :: "Assembler \<Rightarrow> bool" where
  "suppressing a \<longleftrightarrow> instructionWasAbrupt a \<or> instructionWasCompletion a"


text \<open>The positions at which finalization opens a case: those a label is bound to, up to
  the operation count. Case \<open>N\<close> holds the operations from its start to the start of the
  next case; of those, the ones written are the ones up to the first abrupt operation or
  completion.\<close>

definition caseStarts :: "CodeGenerator \<Rightarrow> nat list" where
  "caseStarts g = filter (labelAt (labels g)) [0..<Suc (length (operations g))]"

definition caseOperations :: "CodeGenerator \<Rightarrow> nat \<Rightarrow> OpCode list" where
  "caseOperations g N =
     take (caseStarts g ! Suc N - caseStarts g ! N) (drop (caseStarts g ! N) (operations g))"

fun writtenOperations :: "OpCode list \<Rightarrow> OpCode list" where
  "writtenOperations [] = []"
| "writtenOperations (c # cs) =
     (if isAbrupt c \<or> isCompletion c then [c] else c # writtenOperations cs)"

text \<open>The statement \<^verbatim>\<open>__state.label = n;\<close>, at any location.\<close>

fun isFixup :: "nat \<Rightarrow> jsval \<Rightarrow> bool" where
  "isFixup n (GeneratedNode text (Obj [(k, GeneratedNode d Undefined l')]) l) =
     (text = fixupTemplate \<and> k = ''label'' \<and> d = digits n)"
| "isFixup n v = False"

fun caseStatements :: "jsval \<Rightarrow> jsval list" where
  "caseStatements (GeneratedNode text (Obj [label, (k, Arr body)]) l) = body"
| "caseStatements v = []"

definition segmentBad :: "CodeGenerator \<Rightarrow> nat \<Rightarrow> nat \<Rightarrow> bool" where
  "segmentBad g s e \<longleftrightarrow>
     (\<exists>k. s \<le> k \<and> k < e \<and> (isAbrupt (operations g ! k) \<or> isCompletion (operations g ! k)))"

definition closedRight :: "CodeGenerator \<Rightarrow> nat \<Rightarrow> jsval list \<Rightarrow> bool" where
  "closedRight g N buf \<longleftrightarrow>
     ((buf \<noteq> [] \<and> isFixup (Suc N) (last buf))
        \<longleftrightarrow> \<not> segmentBad g (caseStarts g ! N) (caseStarts g ! Suc N))"

definition fixupInv :: "CodeGenerator \<Rightarrow> nat \<Rightarrow> Assembler \<Rightarrow> bool" where
  "fixupInv g m a \<longleftrightarrow>
     (\<forall>N. Suc N < length (clauses a) \<longrightarrow> closedRight g N (buffers a (Suc N)))
     \<and> (clauses a \<noteq> [] \<longrightarrow>
          (suppressing a \<longleftrightarrow> segmentBad g (caseStarts g ! (length (clauses a) - 1)) m))
     \<and> (suppressing a \<longrightarrow>
          buffers a (statements a) \<noteq> []
          \<and> (\<forall>n. \<not> isFixup n (last (buffers a (statements a)))))"






text \<open>The labels held by blocks: all were allocated, exception blocks have distinct start
  labels, and a start label is nobody's end or break label.\<close>

definition isStartLabel :: "CodeGenerator \<Rightarrow> int \<Rightarrow> bool" where
  "isStartLabel g l \<longleftrightarrow>
     (\<exists>a \<in> set [0..<nextAddress g]. kind (heap g a) = Exception \<and> startLabel (heap g a) = Some l)"









text \<open>The statement \<^verbatim>\<open>__state.trys.push([...])\<close> whose first slot is the label \<open>l\<close>, at any
  location and with any other slots.\<close>

fun isPushFor :: "int \<Rightarrow> jsval \<Rightarrow> bool" where
  "isPushFor l (GeneratedNode text (Obj ((key, GeneratedLabel (Num x) l') # slots)) l'') =
     (text = pushTemplate \<and> key = ''startLabel'' \<and> x = l)"
| "isPushFor l v = False"




text \<open>The assembler that \<^verbatim>\<open>writeOperation\<close> starts from in turn \<open>m\<close>.\<close>

definition labelled :: "CodeGenerator \<Rightarrow> nat \<Rightarrow> Assembler" where
  "labelled g m = ensureLabels m ((after g m)\<lparr>relatedLocation := operationLocations g ! m\<rparr>)"






section \<open>The fields after each primitive\<close>

lemma digits_0: "digits 0 = ''0''"
  by (simp add: digits.simps digitChar_def)

lemma arrayGet_arraySet: "arrayGet (arraySet xs i v) j = (if j = i then Some v else arrayGet xs j)"
  by (auto simp: arrayGet_def arraySet_def nth_append)

lemma length_arraySet: "length (arraySet xs i v) = max (length xs) (Suc i)"
  by (auto simp: arraySet_def)

lemma emit_fields [simp]:
  "heap (emit c args g) = heap g"
  "nextAddress (emit c args g) = nextAddress g"
  "blocks (emit c args g) = blocks g"
  "blockStack (emit c args g) = blockStack g"
  "blockActions (emit c args g) = blockActions g"
  "blockOffsets (emit c args g) = blockOffsets g"
  "hasProtectedRegions (emit c args g) = hasProtectedRegions g"
  "nextLabelId (emit c args g) = nextLabelId g"
  "labels (emit c args g) = labels g"
  "labelNumbers (emit c args g) = labelNumbers g"
  by (simp_all add: emit_def Let_def)

lemma emit_operations_mono: "length (operations g) \<le> length (operations (emit c args g))"
  by (simp add: emit_def Let_def)

lemma emit_operations: "c \<noteq> Statement \<Longrightarrow> operations (emit c args g) = operations g @ [c]"
  by (simp add: emit_def Let_def)

lemma defineLabel_fields [simp]:
  "fst (defineLabel g) = int (nextLabelId g)"
  "heap (snd (defineLabel g)) = heap g"
  "nextAddress (snd (defineLabel g)) = nextAddress g"
  "blocks (snd (defineLabel g)) = blocks g"
  "blockStack (snd (defineLabel g)) = blockStack g"
  "blockActions (snd (defineLabel g)) = blockActions g"
  "blockOffsets (snd (defineLabel g)) = blockOffsets g"
  "hasProtectedRegions (snd (defineLabel g)) = hasProtectedRegions g"
  "nextLabelId (snd (defineLabel g)) = Suc (nextLabelId g)"
  "labels (snd (defineLabel g)) = arraySet (labels g) (nextLabelId g) (- 1)"
  "operations (snd (defineLabel g)) = operations g"
  by (simp_all add: defineLabel_def Let_def)

lemma markLabel_fields [simp]:
  "heap (markLabel l g) = heap g"
  "nextAddress (markLabel l g) = nextAddress g"
  "blocks (markLabel l g) = blocks g"
  "blockStack (markLabel l g) = blockStack g"
  "blockActions (markLabel l g) = blockActions g"
  "blockOffsets (markLabel l g) = blockOffsets g"
  "hasProtectedRegions (markLabel l g) = hasProtectedRegions g"
  "nextLabelId (markLabel l g) = nextLabelId g"
  "labels (markLabel l g) =
     (if 0 \<le> l then arraySet (labels g) (nat l) (int (length (operations g))) else labels g)"
  "operations (markLabel l g) = operations g"
  by (simp_all add: markLabel_def)

lemma beginBlock_fields [simp]:
  "heap (snd (beginBlock b g)) = (heap g)(nextAddress g := b)"
  "nextAddress (snd (beginBlock b g)) = Suc (nextAddress g)"
  "blocks (snd (beginBlock b g)) = blocks g @ [nextAddress g]"
  "blockStack (snd (beginBlock b g)) = nextAddress g # blockStack g"
  "blockActions (snd (beginBlock b g)) = blockActions g @ [Open]"
  "blockOffsets (snd (beginBlock b g)) = blockOffsets g @ [length (operations g)]"
  "hasProtectedRegions (snd (beginBlock b g)) = hasProtectedRegions g"
  "nextLabelId (snd (beginBlock b g)) = nextLabelId g"
  "labels (snd (beginBlock b g)) = labels g"
  "operations (snd (beginBlock b g)) = operations g"
  by (simp_all add: beginBlock_def Let_def)

lemma endBlock_eq:
  "endBlock g = (case blockStack g of [] \<Rightarrow> None | a # rest \<Rightarrow> Some (a, popped g))"
  by (simp add: endBlock_def popped_def split: list.splits)

lemma popped_fields [simp]:
  "heap (popped g) = heap g"
  "nextAddress (popped g) = nextAddress g"
  "blocks (popped g) = blocks g @ [hd (blockStack g)]"
  "blockStack (popped g) = tl (blockStack g)"
  "blockActions (popped g) = blockActions g @ [Close]"
  "blockOffsets (popped g) = blockOffsets g @ [length (operations g)]"
  "hasProtectedRegions (popped g) = hasProtectedRegions g"
  "nextLabelId (popped g) = nextLabelId g"
  "labels (popped g) = labels g"
  "operations (popped g) = operations g"
  by (simp_all add: popped_def)

lemma markBreakLabel_fields [simp]:
  "heap (markBreakLabel l g) = heap g"
  "nextAddress (markBreakLabel l g) = nextAddress g"
  "blocks (markBreakLabel l g) = blocks g"
  "blockStack (markBreakLabel l g) = blockStack g"
  "blockActions (markBreakLabel l g) = blockActions g"
  "blockOffsets (markBreakLabel l g) = blockOffsets g"
  "hasProtectedRegions (markBreakLabel l g) = hasProtectedRegions g"
  "nextLabelId (markBreakLabel l g) = nextLabelId g"
  "operations (markBreakLabel l g) = operations g"
  by (simp_all add: markBreakLabel_def split: option.splits)

text \<open>\<^verbatim>\<open>emitNode\<close> only emits.\<close>

lemma emitNode_frame:
  "emitNode n g = Inr g' \<Longrightarrow>
     heap g' = heap g \<and> nextAddress g' = nextAddress g \<and> blocks g' = blocks g
     \<and> blockStack g' = blockStack g \<and> blockActions g' = blockActions g
     \<and> blockOffsets g' = blockOffsets g \<and> hasProtectedRegions g' = hasProtectedRegions g
     \<and> nextLabelId g' = nextLabelId g \<and> labels g' = labels g
     \<and> length (operations g) \<le> length (operations g')"
  "emitNodes ns g = Inr g' \<Longrightarrow>
     heap g' = heap g \<and> nextAddress g' = nextAddress g \<and> blocks g' = blocks g
     \<and> blockStack g' = blockStack g \<and> blockActions g' = blockActions g
     \<and> blockOffsets g' = blockOffsets g \<and> hasProtectedRegions g' = hasProtectedRegions g
     \<and> nextLabelId g' = nextLabelId g \<and> labels g' = labels g
     \<and> length (operations g) \<le> length (operations g')"
proof (induction n g and ns g arbitrary: g' and g' rule: emitNode_emitNodes.induct)
  case (6 node rest g)
  from "6.prems" obtain g1 where a: "emitNode node g = Inr g1" and b: "emitNodes rest g1 = Inr g'"
    by (auto split: sum.splits)
  from "6.IH"(1)[OF a] "6.IH"(2)[OF a b] show ?case by simp
qed (auto simp: emit_operations_mono split: if_splits)

lemmas call_defs = addFunction_def addParameter_def declareLocal_def
  beginExceptionBlock_def beginCatchBlock_def beginFinallyBlock_def endExceptionBlock_def
  beginScriptContinueBlock_def endScriptContinueBlock_def beginScriptBreakBlock_def
  endScriptBreakBlock_def beginContinueBlock_def endContinueBlock_def beginBreakBlock_def
  endBreakBlock_def pushLocation_def popLocation_def setLocation_def cacheExpression_def
  peekBlock_def peekBlockKind_def endBlock_eq

lemma createCodeGenerator_eq:
  "createCodeGenerator = emptyGenerator\<lparr>nextLabelId := 2, labels := [None, Some 0]\<rparr>"
  by (simp add: createCodeGenerator_def emptyGenerator_def defineLabel_def markLabel_def
      arraySet_def Let_def)

lemma run_append:
  "run (cs @ ds) g = (case run cs g of Inl e \<Rightarrow> Inl e | Inr g' \<Rightarrow> run ds g')"
  by (induction cs arbitrary: g) (auto split: sum.splits)

lemma run_invariant:
  assumes "run cs g = Inr g'" and "P g"
    and "\<And>c g g'. exec c g = Inr g' \<Longrightarrow> P g \<Longrightarrow> P g'"
  shows "P g'"
  using assms(1,2)
proof (induction cs arbitrary: g)
  case Nil
  then show ?case by simp
next
  case (Cons c cs)
  from Cons.prems(1) obtain g1 where "exec c g = Inr g1" and "run cs g1 = Inr g'"
    by (auto split: sum.splits)
  with Cons.IH assms(3) Cons.prems(2) show ?case by blast
qed

section \<open>The recorder\<close>

lemma arg_Cons_0: "arg (x # xs) 0 = x"
  by (simp add: arg_def)

text \<open>C8. \<^verbatim>\<open>emit\<close> with the \<^verbatim>\<open>Statement\<close> opcode and a \<^verbatim>\<open>null\<close> or \<^verbatim>\<open>undefined\<close> payload
  returns before it writes anything: the whole state of the generator, the operation log
  included, is as it was.\<close>

theorem C8_emit_statement_without_payload:
  assumes "arg args 0 = Null \<or> arg args 0 = Undefined"
  shows "emit Statement args g = g"
proof -
  have "\<not> truthy (arg (case arg args 0 of
           Str text \<Rightarrow> [createGeneratedNode text (arg args 1) g]
         | _ \<Rightarrow>
           (case arg args 1 of
              Str text \<Rightarrow> [arg args 0, createGeneratedNode text (arg args 2) g]
            | _ \<Rightarrow> args)) 0)"
    using assms by (cases "arg args 1") (auto simp: arg_Cons_0)
  then show ?thesis
    unfolding emit_def Let_def by (simp only: simp_thms if_True)
qed

theorem C8_emit_statement_without_payload_witness:
  "(arg [Null, Str ''x''] 0 = Null \<or> arg [Null, Str ''x''] 0 = Undefined)
   \<and> emit Statement [Null, Str ''x''] createCodeGenerator = createCodeGenerator"
  using C8_emit_statement_without_payload [of "[Null, Str ''x'']" createCodeGenerator]
  by (simp add: arg_Cons_0)

text \<open>C4. With an exception block on top of the live stack, \<^verbatim>\<open>endExceptionBlock\<close> pops it,
  records \<^verbatim>\<open>Break endLabel\<close> when the block's state is below \<^verbatim>\<open>Finally\<close> and \<^verbatim>\<open>Endfinally\<close>
  otherwise, binds \<^verbatim>\<open>endLabel\<close> to the operation count after that opcode, and leaves the
  block in state \<^verbatim>\<open>Done\<close>.\<close>

theorem C4_endExceptionBlock:
  assumes "blockStack g = a # rest"
    and "kind (heap g a) = Exception"
    and "endLabel (heap g a) = Some e" and "0 \<le> e"
  shows "\<exists>g'. endExceptionBlock g = Inr g'
     \<and> operations g' = operations g @
          [if stateBelow (state (heap g a)) Finally then Break else Endfinally]
     \<and> operationArguments g' = operationArguments g @
          [if stateBelow (state (heap g a)) Finally then [Num e] else []]
     \<and> labels g' = arraySet (labels g) (nat e) (int (length (operations g')))
     \<and> state (heap g' a) = Some Done
     \<and> blockStack g' = rest"
  using assms
  by (auto simp: endExceptionBlock_def peekBlockKind_def peekBlock_def endBlock_def emit_def
      markLabel_def arg_def Let_def)


lemma beginExceptionBlock_fresh:
  "blockStack (snd (beginExceptionBlock createCodeGenerator)) = [0]" 
  "kind (heap (snd (beginExceptionBlock createCodeGenerator)) 0) = Exception"
  "endLabel (heap (snd (beginExceptionBlock createCodeGenerator)) 0) = Some 3"
  "state (heap (snd (beginExceptionBlock createCodeGenerator)) 0) = Some Try"
  "operations (snd (beginExceptionBlock createCodeGenerator)) = []"
    by (simp_all add: beginExceptionBlock_def createCodeGenerator_eq emptyGenerator_def
        newBlock_def split_def Let_def)

lemma beginExceptionBlock_fresh_labels:
  "operationArguments (snd (beginExceptionBlock createCodeGenerator)) = []"
  "labels (snd (beginExceptionBlock createCodeGenerator)) = [None, Some 0, Some 0, Some (- 1)]"
    by (simp_all add: beginExceptionBlock_def createCodeGenerator_eq emptyGenerator_def
        newBlock_def split_def Let_def arraySet_def defineLabel_def markLabel_def beginBlock_def)

theorem C4_endExceptionBlock_witness:
  "blockStack (snd (beginExceptionBlock createCodeGenerator)) = [0]
   \<and> kind (heap (snd (beginExceptionBlock createCodeGenerator)) 0) = Exception
   \<and> endLabel (heap (snd (beginExceptionBlock createCodeGenerator)) 0) = Some 3
   \<and> (\<exists>g'. endExceptionBlock (snd (beginExceptionBlock createCodeGenerator)) = Inr g'
        \<and> operations g' = [Break] \<and> operationArguments g' = [[Num 3]]
        \<and> labels g' = [None, Some 0, Some 0, Some 1]
        \<and> state (heap g' 0) = Some Done \<and> blockStack g' = [])"
proof -
  let ?g = "snd (beginExceptionBlock createCodeGenerator)"
  have s: "blockStack ?g = [0]" and k: "kind (heap ?g 0) = Exception"
    and e: "endLabel (heap ?g 0) = Some 3" and st: "state (heap ?g 0) = Some Try"
    and ops: "operations ?g = []" "operationArguments ?g = []"
    and ls: "labels ?g = [None, Some 0, Some 0, Some (- 1)]"
    by (simp_all add: beginExceptionBlock_fresh beginExceptionBlock_fresh_labels)
  from C4_endExceptionBlock [OF s k e] obtain g' where g': "endExceptionBlock ?g = Inr g'"
     "operations g' = operations ?g @
          [if stateBelow (state (heap ?g 0)) Finally then Break else Endfinally]"
     "operationArguments g' = operationArguments ?g @
          [if stateBelow (state (heap ?g 0)) Finally then [Num 3] else []]"
     "labels g' = arraySet (labels ?g) (nat 3) (int (length (operations g')))"
     "state (heap g' 0) = Some Done" "blockStack g' = []" by auto
  have "labels g' = [None, Some 0, Some 0, Some 1]"
    unfolding g'(4) g'(2) ops ls by (simp add: arraySet_def)
  with g' s k e st ops show ?thesis
    by simp
qed

text \<open>C5. \<^verbatim>\<open>findContinueTarget\<close> has no \<^verbatim>\<open>return\<close> after its loop: with no matching block
  it returns \<^verbatim>\<open>undefined\<close>, where \<^verbatim>\<open>findBreakTarget\<close> returns \<^verbatim>\<open>0\<close>.\<close>

theorem C5_findContinueTarget_not_found:
  "findContinueTarget (Some ''outer'') createCodeGenerator = Undefined
   \<and> findBreakTarget (Some ''outer'') createCodeGenerator = Num 0"
  by (simp add: findContinueTarget_def findBreakTarget_def createCodeGenerator_eq
      emptyGenerator_def)

text \<open>C6. \<^verbatim>\<open>beginScriptBreakBlock\<close> stores its label text in the field \<^verbatim>\<open>labelSymbol\<close>, and
  \<^verbatim>\<open>findBreakTarget\<close> compares the field \<^verbatim>\<open>labelText\<close>: a script-break block is not found by
  its label text, where a break block with the same text is.\<close>

theorem C6_script_break_block_not_matched:
  "findBreakTarget (Some ''L'') (beginScriptBreakBlock (Some ''L'') createCodeGenerator) = Num 0
   \<and> findBreakTarget (Some ''L'') (snd (beginBreakBlock (Some ''L'') createCodeGenerator)) = Num 2"
  by (simp add: findBreakTarget_def beginScriptBreakBlock_def beginBreakBlock_def split_def
      createCodeGenerator_eq emptyGenerator_def newBlock_def)

subsection \<open>Script blocks as break targets\<close>

lemma scriptLabels_exec:
  assumes "exec c g = Inr g'" and "scriptLabels g"
  shows "scriptLabels g'"
proof (cases c)
  case (EmitNode n)
  with assms show ?thesis using emitNode_frame(1)[of n g g'] by (simp add: scriptLabels_def)
qed (use assms in \<open>auto simp: scriptLabels_def call_defs newBlock_def Let_def less_Suc_eq split_def
     split: if_splits option.splits list.splits\<close>)

lemma scriptLabels_run:
  "run cs createCodeGenerator = Inr g \<Longrightarrow> scriptLabels g"
proof -
  assume r: "run cs createCodeGenerator = Inr g"
  have "scriptLabels createCodeGenerator"
    by (simp add: scriptLabels_def createCodeGenerator_eq emptyGenerator_def)
  with r show ?thesis
    by (rule run_invariant) (rule scriptLabels_exec)
qed

lemma findBreakTargetFrom_unlabelled:
  "List.find (\<lambda>a. supportsBreak (h a)) stack = Some a \<Longrightarrow>
     findBreakTargetFrom h stack None = labelValue (breakLabel (h a))"
  by (induction stack) (auto split: if_splits)

text \<open>C9. After any recording, when the nearest block of the live stack that supports
  break is a script-break or script-continue block, \<^verbatim>\<open>findBreakTarget()\<close> without a label
  text returns the \<^verbatim>\<open>breakLabel\<close> of that block, and that is \<^verbatim>\<open>-1\<close>: neither a label
  (\<open>\<ge> 1\<close>) nor the not-found result \<open>0\<close>.\<close>

theorem C9_script_block_break_target:
  assumes "run calls createCodeGenerator = Inr g"
    and "List.find (\<lambda>a. supportsBreak (heap g a)) (blockStack g) = Some a"
    and "kind (heap g a) = ScriptBreak \<or> kind (heap g a) = ScriptContinue"
  shows "findBreakTarget None g = labelValue (breakLabel (heap g a))
     \<and> breakLabel (heap g a) = Some (- 1)
     \<and> findBreakTarget None g = Num (- 1)"
proof -
  from assms(2) have "a \<in> set (blockStack g)"
    by (auto simp: find_Some_iff)
  with scriptLabels_run [OF assms(1)] assms(3) have "breakLabel (heap g a) = Some (- 1)"
    by (auto simp: scriptLabels_def)
  with findBreakTargetFrom_unlabelled [OF assms(2)] show ?thesis
    by (simp add: findBreakTarget_def)
qed

theorem C9_script_block_break_target_witness:
  "run [BeginScriptBreakBlock (Some ''L''), BeginExceptionBlock] createCodeGenerator
     = Inr (snd (beginExceptionBlock (beginScriptBreakBlock (Some ''L'') createCodeGenerator)))
   \<and> List.find (\<lambda>a. supportsBreak
          (heap (snd (beginExceptionBlock (beginScriptBreakBlock (Some ''L'') createCodeGenerator))) a))
        (blockStack (snd (beginExceptionBlock (beginScriptBreakBlock (Some ''L'') createCodeGenerator))))
      = Some 0
   \<and> kind (heap (snd (beginExceptionBlock (beginScriptBreakBlock (Some ''L'') createCodeGenerator))) 0)
      = ScriptBreak
   \<and> findBreakTarget None
        (snd (beginExceptionBlock (beginScriptBreakBlock (Some ''L'') createCodeGenerator)))
      = Num (- 1)"
proof -
  let ?g = "snd (beginExceptionBlock (beginScriptBreakBlock (Some ''L'') createCodeGenerator))"
  have r: "run [BeginScriptBreakBlock (Some ''L''), BeginExceptionBlock] createCodeGenerator = Inr ?g"
    by simp
  have f: "List.find (\<lambda>a. supportsBreak (heap ?g a)) (blockStack ?g) = Some 0"
    and k: "kind (heap ?g 0) = ScriptBreak"
    by (simp_all add: beginExceptionBlock_def beginScriptBreakBlock_def createCodeGenerator_eq
        emptyGenerator_def newBlock_def split_def Let_def)
  from C9_script_block_break_target [OF r f] k r f show ?thesis
    by simp
qed

section \<open>The assembled body\<close>

lemma bindLabels_snd:
  "snd (bindLabels ls i n idx acc) = (snd acc \<or> (\<exists>L \<in> set idx. ls ! L = Some (int i)))"
  by (induction idx arbitrary: acc) auto


lemma bindLabels_none:
  "\<forall>L \<in> set idx. ls ! L \<noteq> Some (int i) \<Longrightarrow> bindLabels ls i n idx acc = acc"
  by (induction idx arbitrary: acc) auto

lemma createCase_labelAt:
  "snd (bindLabels ls i n [0..<length ls] (numbers, False)) = labelAt ls i"
  by (auto simp: bindLabels_snd labelAt_def in_set_conv_nth)


lemma ensureLabels_no_label:
  assumes "\<not> labelAt (labels a) i"
  shows "ensureLabels i a = a"
proof -
  from assms have "\<forall>L \<in> set [0..<length (labels a)]. labels a ! L \<noteq> Some (int i)"
    by (auto simp: labelAt_def in_set_conv_nth)
  then have "bindLabels (labels a) i (length (clauses a)) [0..<length (labels a)] (labelNumbers a, False)
      = (labelNumbers a, False)"
    by (rule bindLabels_none)
  then show ?thesis
    by (simp add: ensureLabels_def)
qed

lemma ensureLabels_label:
  assumes "labelAt (labels a) i"
  shows "ensureLabels i a =
     a\<lparr>labelNumbers := numbered (labels a) i (length (clauses a)) (labelNumbers a),
       clauses := clauses a @
         [(GeneratedNode (digits (length (clauses a))) Undefined (relatedLocation a),
           nextBuffer a, relatedLocation a)],
       buffers := (closedBuffers i a)(nextBuffer a :=
          if length (clauses a) = 0 \<and> hasProtectedRegions a
          then [GeneratedNode trysTemplate Undefined (relatedLocation a)] else []),
       nextBuffer := Suc (nextBuffer a),
       statements := nextBuffer a,
       instructionWasAbrupt := False,
       instructionWasCompletion := False\<rparr>"
proof -
  obtain numbers where b: "bindLabels (labels a) i (length (clauses a)) [0..<length (labels a)] (labelNumbers a, False)
      = (numbers, True)" and n: "numbers = numbered (labels a) i (length (clauses a)) (labelNumbers a)"
    using createCase_labelAt[of "labels a" i "length (clauses a)" "labelNumbers a"] assms
    by (cases "bindLabels (labels a) i (length (clauses a)) [0..<length (labels a)] (labelNumbers a, False)")
       (auto simp: numbered_def)
  show ?thesis
    unfolding ensureLabels_def b n[symmetric]
    by (simp add: Let_def writeStatement_def createGeneratedNode_def closedBuffers_def fixup_def)
qed

lemma appended_Nil [simp]: "appended [] a = a"
  by (simp add: appended_def)

lemma appended_appended: "appended ys (appended xs a) = appended (xs @ ys) a"
  by (simp add: appended_def)

lemma writeStatement_eq: "writeStatement node a = appended [wrapped node (relatedLocation a)] a"
  by (simp add: writeStatement_def wrapped_def appended_def)

lemma tryPush_eq: "tryPush b a = pushAt b (relatedLocation a)"
  by (simp add: tryPush_def pushAt_def createGeneratedNode_def createLabel_def optionalLabel_def
      slotAt_def split: option.splits)

lemma syncBlock_eq:
  "syncBlock a =
     (appended (if openException a (blockIndex a)
                then [pushAt (heap a (blocks a ! blockIndex a)) (relatedLocation a)] else []) a)
       \<lparr>blockIndex := Suc (blockIndex a)\<rparr>"
  by (simp add: syncBlock_def Let_def writeStatement_eq tryPush_eq openException_def wrapped_def
      pushAt_def appended_def)

lemma T1: "blockActions (syncBlocks i a) = blockActions a"
proof (induct i a rule: syncBlocks.induct)
  case (1 i a)
  then show ?case
    by (subst syncBlocks.simps) (simp add: syncBlock_eq appended_def)
qed

lemma syncBlock_fields [simp]:
  "blockActions (syncBlock a) = blockActions a"
  "blockOffsets (syncBlock a) = blockOffsets a"
  "blocks (syncBlock a) = blocks a"
  "heap (syncBlock a) = heap a"
  "relatedLocation (syncBlock a) = relatedLocation a"
  "blockIndex (syncBlock a) = Suc (blockIndex a)"
  "statements (syncBlock a) = statements a"
  by (simp_all add: syncBlock_eq appended_def)

lemma syncBlocks_stop: "\<not> pendingEvent i a (blockIndex a) \<Longrightarrow> syncBlocks i a = a"
  by (subst syncBlocks.simps) (auto simp: pendingEvent_def)

lemma syncBlocks_go:
  "pendingEvent i a (blockIndex a) \<Longrightarrow> syncBlocks i a = syncBlocks i (syncBlock a)"
  by (subst syncBlocks.simps) (simp add: pendingEvent_def)

lemma syncedTo_stop: "\<not> pendingEvent i a (blockIndex a) \<Longrightarrow> syncedTo i a (blockIndex a)"
  by (auto simp: syncedTo_def syncBlocks_stop)

lemma syncedTo_step:
  assumes p: "pendingEvent i a (blockIndex a)" and s: "syncedTo i (syncBlock a) k"
  shows "syncedTo i a k"
proof -
  have oe: "openException (syncBlock a) = openException a"
    by (simp add: openException_def fun_eq_iff)
  have pe: "pendingEvent i (syncBlock a) = pendingEvent i a"
    by (simp add: pendingEvent_def fun_eq_iff)
  from s have k: "Suc (blockIndex a) \<le> k"
    and all: "\<forall>j. Suc (blockIndex a) \<le> j \<and> j < k \<longrightarrow> pendingEvent i a j"
    and stop: "\<not> pendingEvent i a k"
    and eq: "syncBlocks i (syncBlock a) =
         (appended (map (\<lambda>j. pushAt (heap a (blocks a ! j)) (relatedLocation a))
                      (filter (openException a) [Suc (blockIndex a)..<k])) (syncBlock a))\<lparr>blockIndex := k\<rparr>"
    by (auto simp: syncedTo_def oe pe)
  have st: "syncBlocks i a = syncBlocks i (syncBlock a)"
    using p by (rule syncBlocks_go)
  have u: "[blockIndex a..<k] = blockIndex a # [Suc (blockIndex a)..<k]"
    using k by (simp add: upt_conv_Cons)
  have "syncBlocks i a =
         (appended (map (\<lambda>j. pushAt (heap a (blocks a ! j)) (relatedLocation a))
                      (filter (openException a) [blockIndex a..<k])) a)\<lparr>blockIndex := k\<rparr>"
    unfolding st eq u by (simp add: syncBlock_eq appended_def)
  moreover have "\<forall>j. blockIndex a \<le> j \<and> j < k \<longrightarrow> pendingEvent i a j"
  proof (intro allI impI)
    fix j assume "blockIndex a \<le> j \<and> j < k"
    then show "pendingEvent i a j"
      using all p by (cases "j = blockIndex a") auto
  qed
  ultimately show ?thesis
    using k stop by (auto simp: syncedTo_def)
qed

lemma syncBlocks_summary: "\<exists>k. syncedTo i a k"
proof (induct i a rule: syncBlocks.induct)
  case (1 i a)
  show ?case
  proof (cases "pendingEvent i a (blockIndex a)")
    case False
    then show ?thesis
      using syncedTo_stop by blast
  next
    case True
    then have "\<exists>k. syncedTo i (syncBlock a) k"
      using "1.hyps" by (simp add: pendingEvent_def)
    with True show ?thesis
      using syncedTo_step by blast
  qed
qed

lemma writeOperation_eq:
  "writeOperation i code args a =
     (let a1 = syncBlocks i a
      in if instructionWasAbrupt a1 \<or> instructionWasCompletion a1 then a1
         else (appended [opStatement code args (relatedLocation a1)] a1)
                \<lparr>instructionWasAbrupt := isAbrupt code, instructionWasCompletion := isCompletion code\<rparr>)"
  by (cases code)
     (simp_all add: writeOperation_def Let_def writeStatement_eq writeAssign_def writeBreak_def
        writeBrTrue_def writeBrFalse_def writeYield_def writeReturn_def writeThrow_def
        writeEndfinally_def opStatement_def createInlineBreak_def createInlineReturn_def
        createYield_def createGeneratedNode_def createLabel_def inlineBreak_def wrapped_def
        appended_def isAbrupt_def isCompletion_def)

lemma appended_fields [simp]:
  "operations (appended xs a) = operations a"
  "operationArguments (appended xs a) = operationArguments a"
  "operationLocations (appended xs a) = operationLocations a"
  "labels (appended xs a) = labels a"
  "heap (appended xs a) = heap a"
  "blocks (appended xs a) = blocks a"
  "blockActions (appended xs a) = blockActions a"
  "blockOffsets (appended xs a) = blockOffsets a"
  "hasProtectedRegions (appended xs a) = hasProtectedRegions a"
  "clauses (appended xs a) = clauses a"
  "nextBuffer (appended xs a) = nextBuffer a"
  "statements (appended xs a) = statements a"
  "blockIndex (appended xs a) = blockIndex a"
  "instructionWasAbrupt (appended xs a) = instructionWasAbrupt a"
  "instructionWasCompletion (appended xs a) = instructionWasCompletion a"
  "labelNumbers (appended xs a) = labelNumbers a"
  "relatedLocation (appended xs a) = relatedLocation a"
  by (simp_all add: appended_def)

lemma ensureLabels_fields [simp]:
  "operations (ensureLabels i a) = operations a"
  "operationArguments (ensureLabels i a) = operationArguments a"
  "operationLocations (ensureLabels i a) = operationLocations a"
  "labels (ensureLabels i a) = labels a"
  "heap (ensureLabels i a) = heap a"
  "blocks (ensureLabels i a) = blocks a"
  "blockActions (ensureLabels i a) = blockActions a"
  "blockOffsets (ensureLabels i a) = blockOffsets a"
  "hasProtectedRegions (ensureLabels i a) = hasProtectedRegions a"
  "blockIndex (ensureLabels i a) = blockIndex a"
  "relatedLocation (ensureLabels i a) = relatedLocation a"
  by (cases "labelAt (labels a) i"; simp add: ensureLabels_no_label ensureLabels_label)+

lemma syncBlocks_fields [simp]:
  "operations (syncBlocks i a) = operations a"
  "operationArguments (syncBlocks i a) = operationArguments a"
  "operationLocations (syncBlocks i a) = operationLocations a"
  "labels (syncBlocks i a) = labels a"
  "heap (syncBlocks i a) = heap a"
  "blocks (syncBlocks i a) = blocks a"
  "blockActions (syncBlocks i a) = blockActions a"
  "blockOffsets (syncBlocks i a) = blockOffsets a"
  "hasProtectedRegions (syncBlocks i a) = hasProtectedRegions a"
  "clauses (syncBlocks i a) = clauses a"
  "nextBuffer (syncBlocks i a) = nextBuffer a"
  "statements (syncBlocks i a) = statements a"
  "instructionWasAbrupt (syncBlocks i a) = instructionWasAbrupt a"
  "instructionWasCompletion (syncBlocks i a) = instructionWasCompletion a"
  "labelNumbers (syncBlocks i a) = labelNumbers a"
  "relatedLocation (syncBlocks i a) = relatedLocation a"
  using syncBlocks_summary [of i a] by (auto simp: syncedTo_def)

lemma writeOperation_fields [simp]:
  "operations (writeOperation i code args a) = operations a"
  "operationArguments (writeOperation i code args a) = operationArguments a"
  "operationLocations (writeOperation i code args a) = operationLocations a"
  "labels (writeOperation i code args a) = labels a"
  "heap (writeOperation i code args a) = heap a"
  "blocks (writeOperation i code args a) = blocks a"
  "blockActions (writeOperation i code args a) = blockActions a"
  "blockOffsets (writeOperation i code args a) = blockOffsets a"
  "hasProtectedRegions (writeOperation i code args a) = hasProtectedRegions a"
  "clauses (writeOperation i code args a) = clauses a"
  "nextBuffer (writeOperation i code args a) = nextBuffer a"
  "statements (writeOperation i code args a) = statements a"
  "labelNumbers (writeOperation i code args a) = labelNumbers a"
  "relatedLocation (writeOperation i code args a) = relatedLocation a"
  by (simp_all add: writeOperation_eq Let_def)

lemma operationStep_eq:
  "operationStep a i =
     writeOperation i (operations a ! i) (operationArguments a ! i)
       (ensureLabels i (a\<lparr>relatedLocation := operationLocations a ! i\<rparr>))"
  by (simp add: operationStep_def Let_def)

lemma operationStep_fields [simp]:
  "operations (operationStep a i) = operations a"
  "operationArguments (operationStep a i) = operationArguments a"
  "operationLocations (operationStep a i) = operationLocations a"
  "labels (operationStep a i) = labels a"
  "heap (operationStep a i) = heap a"
  "blocks (operationStep a i) = blocks a"
  "blockActions (operationStep a i) = blockActions a"
  "blockOffsets (operationStep a i) = blockOffsets a"
  "hasProtectedRegions (operationStep a i) = hasProtectedRegions a"
  by (simp_all add: operationStep_eq)

lemma startAssembler_fields [simp]:
  "operations (startAssembler g) = operations g"
  "operationArguments (startAssembler g) = operationArguments g"
  "operationLocations (startAssembler g) = operationLocations g"
  "labels (startAssembler g) = labels g"
  "heap (startAssembler g) = heap g"
  "blocks (startAssembler g) = blocks g"
  "blockActions (startAssembler g) = blockActions g"
  "blockOffsets (startAssembler g) = blockOffsets g"
  "hasProtectedRegions (startAssembler g) = hasProtectedRegions g"
  "labelNumbers (startAssembler g) = labelNumbers g"
  "relatedLocation (startAssembler g) = relatedLocation g"
  "clauses (startAssembler g) = []"
  "buffers (startAssembler g) = (\<lambda>b. [])"
  "nextBuffer (startAssembler g) = 1"
  "statements (startAssembler g) = 0"
  "blockIndex (startAssembler g) = 0"
  "instructionWasAbrupt (startAssembler g) = False"
  "instructionWasCompletion (startAssembler g) = False"
  by (simp_all add: startAssembler_def CodeGenerator.defs Assembler.defs)

lemma after_0 [simp]: "after g 0 = startAssembler g"
  by (simp add: after_def)

lemma after_Suc [simp]: "after g (Suc m) = operationStep (after g m) m"
  by (simp add: after_def)

lemma after_fields [simp]:
  "operations (after g m) = operations g"
  "operationArguments (after g m) = operationArguments g"
  "operationLocations (after g m) = operationLocations g"
  "labels (after g m) = labels g"
  "heap (after g m) = heap g"
  "blocks (after g m) = blocks g"
  "blockActions (after g m) = blockActions g"
  "blockOffsets (after g m) = blockOffsets g"
  "hasProtectedRegions (after g m) = hasProtectedRegions g"
  by (induct m; simp)+

lemma assemble_eq:
  "assemble g =
     (let a1 = ensureLabels (length (operations g)) (after g (length (operations g)))
      in if \<not> instructionWasCompletion a1 then writeReturn Undefined a1 else a1)"
  by (simp add: assemble_def after_def)

lemma writeReturn_eq:
  "writeReturn e a =
     (appended [opStatement Return [e] (relatedLocation a)] a)\<lparr>instructionWasCompletion := True\<rparr>"
  by (simp add: writeReturn_def Let_def writeStatement_eq createInlineReturn_def
      createGeneratedNode_def opStatement_def arg_def wrapped_def appended_def)

subsection \<open>Clauses are numbered by position\<close>

lemma numberedClauses_start: "numberedClauses (startAssembler g)"
  by (simp add: numberedClauses_def)

lemma numberedClauses_ensureLabels:
  assumes "numberedClauses a"
  shows "numberedClauses (ensureLabels i a)"
proof (cases "labelAt (labels a) i")
  case False
  with assms show ?thesis by (simp add: ensureLabels_no_label)
next
  case True
  with assms show ?thesis
    by (auto simp: ensureLabels_label numberedClauses_def nth_append less_Suc_eq)
qed

lemma numberedClauses_cong:
  "clauses a' = clauses a \<Longrightarrow> nextBuffer a' = nextBuffer a \<Longrightarrow> statements a' = statements a
     \<Longrightarrow> numberedClauses a' = numberedClauses a"
  by (simp add: numberedClauses_def)

lemma numberedClauses_operationStep:
  "numberedClauses a \<Longrightarrow> numberedClauses (operationStep a i)"
  unfolding operationStep_eq
  by (subst numberedClauses_cong [of _ "ensureLabels i (a\<lparr>relatedLocation := operationLocations a ! i\<rparr>)"])
     (simp_all add: numberedClauses_ensureLabels numberedClauses_cong [of "a\<lparr>relatedLocation := l\<rparr>" a for l])

lemma numberedClauses_after: "numberedClauses (after g m)"
  by (induct m) (simp_all add: numberedClauses_start numberedClauses_operationStep)

lemma numberedClauses_assemble: "numberedClauses (assemble g)"
  unfolding assemble_eq Let_def
  using numberedClauses_ensureLabels [OF numberedClauses_after, of "length (operations g)" g]
  by (auto simp: writeReturn_eq numberedClauses_def)

lemma length_clauses_ensureLabels:
  "length (clauses (ensureLabels i a)) = length (clauses a) + (if labelAt (labels a) i then 1 else 0)"
  by (simp add: ensureLabels_no_label ensureLabels_label)

lemma length_clauses_after:
  "length (clauses (after g m)) = length (filter (labelAt (labels g)) [0..<m])"
  by (induct m) (simp_all add: operationStep_eq length_clauses_ensureLabels)

lemma length_clauses_assemble:
  "length (clauses (assemble g)) =
     length (filter (labelAt (labels g)) [0..<Suc (length (operations g))])"
  by (simp add: assemble_eq Let_def writeReturn_eq length_clauses_ensureLabels length_clauses_after)

lemma addFunction_fields [simp]:
  "heap (addFunction f g) = heap g"
  "nextAddress (addFunction f g) = nextAddress g"
  "blocks (addFunction f g) = blocks g"
  "blockStack (addFunction f g) = blockStack g"
  "blockActions (addFunction f g) = blockActions g"
  "blockOffsets (addFunction f g) = blockOffsets g"
  "hasProtectedRegions (addFunction f g) = hasProtectedRegions g"
  "nextLabelId (addFunction f g) = nextLabelId g"
  "labels (addFunction f g) = labels g"
  "operations (addFunction f g) = operations g"
  by (simp_all add: addFunction_def)

lemma addParameter_fields [simp]:
  "heap (addParameter n fl g) = heap g"
  "nextAddress (addParameter n fl g) = nextAddress g"
  "blocks (addParameter n fl g) = blocks g"
  "blockStack (addParameter n fl g) = blockStack g"
  "blockActions (addParameter n fl g) = blockActions g"
  "blockOffsets (addParameter n fl g) = blockOffsets g"
  "hasProtectedRegions (addParameter n fl g) = hasProtectedRegions g"
  "nextLabelId (addParameter n fl g) = nextLabelId g"
  "labels (addParameter n fl g) = labels g"
  "operations (addParameter n fl g) = operations g"
  by (simp_all add: addParameter_def)

lemma declareLocal_fields [simp]:
  "heap (snd (declareLocal n g)) = heap g"
  "nextAddress (snd (declareLocal n g)) = nextAddress g"
  "blocks (snd (declareLocal n g)) = blocks g"
  "blockStack (snd (declareLocal n g)) = blockStack g"
  "blockActions (snd (declareLocal n g)) = blockActions g"
  "blockOffsets (snd (declareLocal n g)) = blockOffsets g"
  "hasProtectedRegions (snd (declareLocal n g)) = hasProtectedRegions g"
  "nextLabelId (snd (declareLocal n g)) = nextLabelId g"
  "labels (snd (declareLocal n g)) = labels g"
  "operations (snd (declareLocal n g)) = operations g"
  by (simp_all add: declareLocal_def Let_def split: option.splits)

lemma setLocation_fields [simp]:
  "heap (setLocation l g) = heap g"
  "nextAddress (setLocation l g) = nextAddress g"
  "blocks (setLocation l g) = blocks g"
  "blockStack (setLocation l g) = blockStack g"
  "blockActions (setLocation l g) = blockActions g"
  "blockOffsets (setLocation l g) = blockOffsets g"
  "hasProtectedRegions (setLocation l g) = hasProtectedRegions g"
  "nextLabelId (setLocation l g) = nextLabelId g"
  "labels (setLocation l g) = labels g"
  "operations (setLocation l g) = operations g"
  by (simp_all add: setLocation_def split: option.splits)

lemma pushLocation_fields [simp]:
  "heap (pushLocation l g) = heap g"
  "nextAddress (pushLocation l g) = nextAddress g"
  "blocks (pushLocation l g) = blocks g"
  "blockStack (pushLocation l g) = blockStack g"
  "blockActions (pushLocation l g) = blockActions g"
  "blockOffsets (pushLocation l g) = blockOffsets g"
  "hasProtectedRegions (pushLocation l g) = hasProtectedRegions g"
  "nextLabelId (pushLocation l g) = nextLabelId g"
  "labels (pushLocation l g) = labels g"
  "operations (pushLocation l g) = operations g"
  by (simp_all add: pushLocation_def)

lemma popLocation_fields [simp]:
  "heap (popLocation g) = heap g"
  "nextAddress (popLocation g) = nextAddress g"
  "blocks (popLocation g) = blocks g"
  "blockStack (popLocation g) = blockStack g"
  "blockActions (popLocation g) = blockActions g"
  "blockOffsets (popLocation g) = blockOffsets g"
  "hasProtectedRegions (popLocation g) = hasProtectedRegions g"
  "nextLabelId (popLocation g) = nextLabelId g"
  "labels (popLocation g) = labels g"
  "operations (popLocation g) = operations g"
  by (simp_all add: popLocation_def split: list.splits)

lemma emit_operations_le [simp]:
  "k \<le> length (operations g) \<Longrightarrow> k \<le> length (operations (emit c args g))"
  "k < length (operations g) \<Longrightarrow> k < length (operations (emit c args g))"
  "v \<le> int (length (operations g)) \<Longrightarrow> v \<le> int (length (operations (emit c args g)))"
  using emit_operations_mono [of g c args] by simp_all

lemmas block_defs = beginExceptionBlock_def beginCatchBlock_def beginFinallyBlock_def
  endExceptionBlock_def beginScriptContinueBlock_def endScriptContinueBlock_def
  beginScriptBreakBlock_def endScriptBreakBlock_def beginContinueBlock_def endContinueBlock_def
  beginBreakBlock_def endBreakBlock_def cacheExpression_def peekBlock_def peekBlockKind_def
  endBlock_eq

lemma markBreakLabel_labels:
  "labels (markBreakLabel l g) =
     (case l of Some b \<Rightarrow> if 0 < b then arraySet (labels g) (nat b) (int (length (operations g)))
                         else labels g
      | None \<Rightarrow> labels g)"
  by (simp add: markBreakLabel_def split: option.splits)

lemma labelAt_arrayGet: "labelAt ls i \<longleftrightarrow> (\<exists>L. arrayGet ls L = Some (int i))"
proof
  assume "labelAt ls i"
  then obtain L where "L < length ls" "ls ! L = Some (int i)"
    by (auto simp: labelAt_def in_set_conv_nth)
  then have "arrayGet ls L = Some (int i)"
    by (simp add: arrayGet_def)
  then show "\<exists>L. arrayGet ls L = Some (int i)" ..
next
  assume "\<exists>L. arrayGet ls L = Some (int i)"
  then obtain L where "arrayGet ls L = Some (int i)" ..
  then have "L < length ls" "ls ! L = Some (int i)"
    by (auto simp: arrayGet_def split: if_splits)
  then show "labelAt ls i"
    unfolding labelAt_def by (metis nth_mem)
qed

subsection \<open>The entry label\<close>

lemma entryBound_exec:
  assumes "exec c g = Inr g'" and "entryBound g"
  shows "entryBound g'"
proof (cases c)
  case (EmitNode n)
  with assms show ?thesis
    using emitNode_frame(1)[of n g g'] by (auto simp: entryBound_def)
qed (use assms in \<open>auto simp: entryBound_def block_defs Let_def split_def arrayGet_arraySet
     markBreakLabel_labels emit_operations
     split: if_splits option.splits list.splits\<close>)

lemma entryBound_run:
  assumes "run cs createCodeGenerator = Inr g"
  shows "entryBound g"
proof -
  have "entryBound createCodeGenerator"
    by (simp add: entryBound_def createCodeGenerator_eq emptyGenerator_def arrayGet_def)
  with assms show ?thesis
    by (rule run_invariant) (rule entryBound_exec)
qed

lemma clauses_assemble_nonempty:
  assumes "entryBound g"
  shows "clauses (assemble g) \<noteq> []"
proof -
  from assms obtain v where v: "arrayGet (labels g) 1 = Some v" "0 \<le> v"
      "v \<le> int (length (operations g))"
    by (auto simp: entryBound_def)
  then have k: "nat v \<le> length (operations g)" "arrayGet (labels g) 1 = Some (int (nat v))"
    by simp_all
  define k where "k = nat v"
  note k = k [folded k_def]
  then have "labelAt (labels g) k"
    by (auto simp: labelAt_arrayGet)
  moreover from k(1) have "k \<in> set [0..<Suc (length (operations g))]"
    by auto
  ultimately have "filter (labelAt (labels g)) [0..<Suc (length (operations g))] \<noteq> []"
    unfolding filter_empty_conv by blast
  then show ?thesis
    using length_clauses_assemble [of g] by auto
qed

lemma buildFunctionBody_nth:
  assumes "N < length (clauses (assemble g))"
  shows "\<exists>l. fst (buildFunctionBody g) ! N =
           GeneratedNode caseTemplate
             (Obj [(''label'', GeneratedNode (digits N) Undefined l),
                   (''statements'', Arr (buffers (assemble g) (Suc N)))]) l"
proof -
  from numberedClauses_assemble [of g] assms obtain l where
    "clauses (assemble g) ! N = (GeneratedNode (digits N) Undefined l, Suc N, l)"
    by (auto simp: numberedClauses_def)
  with assms show ?thesis
    by (simp add: buildFunctionBody_def Let_def clauseNode_def)
qed

lemma length_buildFunctionBody:
  "length (fst (buildFunctionBody g)) = length (clauses (assemble g))"
  by (simp add: buildFunctionBody_def Let_def)

text \<open>C10. The factory binds the entry label \<open>1\<close> to operation index \<open>0\<close>. After any
  recording, with or without opcodes, the assembled body has at least one clause, and its
  first clause is \<^verbatim>\<open>case 0:\<close>.\<close>

theorem C10_first_clause_is_case_0:
  assumes "run calls createCodeGenerator = Inr g"
  shows "arrayGet (labels createCodeGenerator) 1 = Some 0
     \<and> operations createCodeGenerator = []
     \<and> (\<exists>l body rest. fst (buildFunctionBody g) =
           GeneratedNode caseTemplate
             (Obj [(''label'', GeneratedNode ''0'' Undefined l), (''statements'', Arr body)]) l
           # rest)"
proof -
  from entryBound_run [OF assms] have ne: "clauses (assemble g) \<noteq> []"
    by (rule clauses_assemble_nonempty)
  then have "0 < length (clauses (assemble g))"
    by simp
  from buildFunctionBody_nth [OF this] obtain l where
    l: "fst (buildFunctionBody g) ! 0 =
           GeneratedNode caseTemplate
             (Obj [(''label'', GeneratedNode (digits 0) Undefined l),
                   (''statements'', Arr (buffers (assemble g) (Suc 0)))]) l"
    by blast
  from ne have "fst (buildFunctionBody g) \<noteq> []"
    using length_buildFunctionBody [of g] by auto
  then obtain x rest where xr: "fst (buildFunctionBody g) = x # rest"
    by (cases "fst (buildFunctionBody g)") auto
  with l have "x = GeneratedNode caseTemplate
             (Obj [(''label'', GeneratedNode ''0'' Undefined l),
                   (''statements'', Arr (buffers (assemble g) (Suc 0)))]) l"
    by (simp add: digits_0)
  with xr show ?thesis
    by (simp add: createCodeGenerator_eq emptyGenerator_def arrayGet_def)
qed

theorem C10_first_clause_is_case_0_witness:
  "run [Emit Yield [Num 42]] createCodeGenerator = Inr (emit Yield [Num 42] createCodeGenerator)
   \<and> (\<exists>l body rest. fst (buildFunctionBody (emit Yield [Num 42] createCodeGenerator)) =
           GeneratedNode caseTemplate
             (Obj [(''label'', GeneratedNode ''0'' Undefined l), (''statements'', Arr body)]) l
           # rest)"
proof -
  have r: "run [Emit Yield [Num 42]] createCodeGenerator = Inr (emit Yield [Num 42] createCodeGenerator)"
    by simp
  from C10_first_clause_is_case_0 [OF r] r show ?thesis
    by blast
qed

subsection \<open>Dead opcodes\<close>

lemma setOperations_fields [simp]:
  "operations (setOperations x y a) = x"
  "operationArguments (setOperations x y a) = y"
  "operationLocations (setOperations x y a) = operationLocations a"
  "labels (setOperations x y a) = labels a"
  "heap (setOperations x y a) = heap a"
  "blocks (setOperations x y a) = blocks a"
  "blockActions (setOperations x y a) = blockActions a"
  "blockOffsets (setOperations x y a) = blockOffsets a"
  "hasProtectedRegions (setOperations x y a) = hasProtectedRegions a"
  "relatedLocation (setOperations x y a) = relatedLocation a"
  "labelNumbers (setOperations x y a) = labelNumbers a"
  by (simp_all add: setOperations_def)

lemma setOperations_assembler_fields [simp]:
  "clauses (setOperations x y a) = clauses a"
  "buffers (setOperations x y a) = buffers a"
  "nextBuffer (setOperations x y a) = nextBuffer a"
  "statements (setOperations x y a) = statements a"
  "blockIndex (setOperations x y a) = blockIndex a"
  "instructionWasAbrupt (setOperations x y a) = instructionWasAbrupt a"
  "instructionWasCompletion (setOperations x y a) = instructionWasCompletion a"
  by (simp_all add: setOperations_def)









lemma suppressing_writeOperation:
  "suppressing (writeOperation i c as a) = (suppressing a \<or> isAbrupt c \<or> isCompletion c)"
  by (auto simp: writeOperation_eq Let_def suppressing_def)








subsection \<open>Case starts\<close>

lemma filter_upt_split:
  assumes "m \<le> n"
  shows "filter P [0..<Suc n] = filter P [0..<m] @ filter P [m..<Suc n]"
proof -
  from assms have "[0..<Suc n] = [0..<m] @ [m..<Suc n]"
    by (metis le_SucI le_add_diff_inverse upt_add_eq_append zero_le)
  then show ?thesis
    by (metis filter_append)
qed

lemma caseStarts_nth_new:
  assumes "m \<le> length (operations g)" and "labelAt (labels g) m"
  shows "caseStarts g ! length (filter (labelAt (labels g)) [0..<m]) = m"
proof -
  from assms(1) have "[m..<Suc (length (operations g))] = m # [Suc m..<Suc (length (operations g))]"
    by (simp add: upt_conv_Cons)
  with assms show ?thesis
    unfolding caseStarts_def filter_upt_split [OF assms(1)]
    by (simp add: nth_append)
qed

lemma caseStarts_nth_old:
  assumes "m \<le> length (operations g)" and "k < length (filter (labelAt (labels g)) [0..<m])"
  shows "caseStarts g ! k < m"
proof -
  from assms(2) have "filter (labelAt (labels g)) [0..<m] ! k \<in> set (filter (labelAt (labels g)) [0..<m])"
    by (rule nth_mem)
  then have "filter (labelAt (labels g)) [0..<m] ! k < m"
    by auto
  with assms show ?thesis
    unfolding caseStarts_def filter_upt_split [OF assms(1)]
    by (simp add: nth_append)
qed

lemma caseStarts_increasing:
  assumes "Suc N < length (caseStarts g)"
  shows "caseStarts g ! N < caseStarts g ! Suc N"
proof -
  have "sorted_wrt (<) (caseStarts g)"
    unfolding caseStarts_def by (rule sorted_wrt_filter) (rule sorted_wrt_upt)
  with assms show ?thesis
    by (simp add: sorted_wrt_nth_less)
qed

lemma caseStarts_bound:
  assumes "N < length (caseStarts g)"
  shows "caseStarts g ! N \<le> length (operations g)"
proof -
  from assms have "caseStarts g ! N \<in> set (caseStarts g)"
    by (rule nth_mem)
  then show ?thesis
    by (auto simp: caseStarts_def)
qed

subsection \<open>What a case ends with\<close>

lemma isFixup_fixup [simp]: "isFixup n (fixup n l)"
  by (simp add: fixup_def)

lemma not_isFixup_pushAt [simp]: "\<not> isFixup n (pushAt b l)"
  by (simp add: pushAt_def)

lemma isFixup_text: "isFixup n (GeneratedNode text content l) \<Longrightarrow> text = fixupTemplate"
  by (erule isFixup.elims) auto

lemma not_isFixup_opStatement:
  "isAbrupt c \<or> isCompletion c \<Longrightarrow> \<not> isFixup n (opStatement c as l)"
  by (cases c)
     (auto simp: opStatement_def isAbrupt_def isCompletion_def inlineBreak_def fixupTemplate_def
        yieldValueTemplate_def returnValueTemplate_def dest!: isFixup_text)

lemma writeOperation_summary:
  "\<exists>k pushes. (\<forall>p \<in> set pushes. \<exists>b l. p = pushAt b l)
     \<and> writeOperation i c as a =
        (if suppressing a then (appended pushes a)\<lparr>blockIndex := k\<rparr>
         else (appended (pushes @ [opStatement c as (relatedLocation a)]) a)
                \<lparr>blockIndex := k, instructionWasAbrupt := isAbrupt c,
                 instructionWasCompletion := isCompletion c\<rparr>)"
proof -
  from syncBlocks_summary [of i a] obtain k where k: "syncedTo i a k" ..
  let ?pushes = "map (\<lambda>j. pushAt (heap a (blocks a ! j)) (relatedLocation a))
                      (filter (openException a) [blockIndex a..<k])"
  from k have s: "syncBlocks i a = (appended ?pushes a)\<lparr>blockIndex := k\<rparr>"
    by (simp add: syncedTo_def)
  have "\<forall>p \<in> set ?pushes. \<exists>b l. p = pushAt b l"
    by auto
  moreover have "writeOperation i c as a =
        (if suppressing a then (appended ?pushes a)\<lparr>blockIndex := k\<rparr>
         else (appended (?pushes @ [opStatement c as (relatedLocation a)]) a)
                \<lparr>blockIndex := k, instructionWasAbrupt := isAbrupt c,
                 instructionWasCompletion := isCompletion c\<rparr>)"
    unfolding writeOperation_eq Let_def s
    by (simp add: suppressing_def appended_def)
  ultimately show ?thesis
    by blast
qed

lemma fixupInv_cong:
  assumes "clauses a' = clauses a" and "buffers a' = buffers a" and "statements a' = statements a"
    and "instructionWasAbrupt a' = instructionWasAbrupt a"
    and "instructionWasCompletion a' = instructionWasCompletion a"
  shows "fixupInv g m a' = fixupInv g m a"
  using assms by (simp add: fixupInv_def suppressing_def)

lemma fixupInv_ensureLabels:
  assumes inv: "fixupInv g m a" and nc: "numberedClauses a"
    and len: "length (clauses a) = length (filter (labelAt (labels g)) [0..<m])"
    and m: "m \<le> length (operations g)" and ls: "labels a = labels g"
  shows "fixupInv g m (ensureLabels m a)"
proof (cases "labelAt (labels g) m")
  case False
  with inv ls show ?thesis
    by (simp add: ensureLabels_no_label)
next
  case True
  let ?c = "length (clauses a)"
  let ?a1 = "ensureLabels m a"
  from nc have st: "statements a = ?c" and nb: "nextBuffer a = Suc ?c"
    by (simp_all add: numberedClauses_def)
  from True m len have new: "caseStarts g ! ?c = m"
    by (simp add: caseStarts_nth_new)
  from True ls have e: "clauses ?a1 = clauses a @
         [(GeneratedNode (digits ?c) Undefined (relatedLocation a), nextBuffer a, relatedLocation a)]"
    "\<And>b. b \<noteq> Suc ?c \<Longrightarrow> buffers ?a1 b = closedBuffers m a b"
    "\<not> suppressing ?a1"
    by (simp_all add: ensureLabels_label nb suppressing_def)
  have closed: "closedRight g N (buffers ?a1 (Suc N))" if N: "Suc N < Suc ?c" for N
  proof (cases "Suc N < ?c")
    case True
    then have "buffers ?a1 (Suc N) = buffers a (Suc N)"
      using e(2) [of "Suc N"] by (simp add: closedBuffers_def st)
    with inv True show ?thesis
      by (simp add: fixupInv_def)
  next
    case False
    with N have c: "?c = Suc N"
      by simp
    then have ne: "clauses a \<noteq> []"
      by auto
    from c len have "filter (labelAt (labels g)) [0..<m] \<noteq> []"
      by auto
    then have m0: "0 < m"
      by (cases m) auto
    from inv ne c have sup: "suppressing a \<longleftrightarrow> segmentBad g (caseStarts g ! N) m"
      by (simp add: fixupInv_def)
    have b: "buffers ?a1 (Suc N) = closedBuffers m a (Suc N)"
      using e(2) [of "Suc N"] c by simp
    show ?thesis
    proof (cases "suppressing a")
      case True
      with inv have "buffers a (statements a) \<noteq> []"
        "\<forall>n. \<not> isFixup n (last (buffers a (statements a)))"
        by (simp_all add: fixupInv_def)
      moreover from True have "closedBuffers m a (Suc N) = buffers a (Suc N)"
        by (auto simp: closedBuffers_def suppressing_def)
      ultimately show ?thesis
        using True sup new c st b by (simp add: closedRight_def)
    next
      case False
      with m0 have "closedBuffers m a (Suc N) =
          buffers a (Suc N) @ [fixup (Suc N) (relatedLocation a)]"
        using c st by (auto simp: closedBuffers_def suppressing_def)
      with False sup new c b show ?thesis
        by (simp add: closedRight_def)
    qed
  qed
  have "segmentBad g m m = False"
    by (simp add: segmentBad_def)
  with closed e(1,3) new show ?thesis
    by (simp add: fixupInv_def)
qed

lemma segmentBad_Suc:
  "s \<le> m \<Longrightarrow> segmentBad g s (Suc m) \<longleftrightarrow>
     segmentBad g s m \<or> isAbrupt (operations g ! m) \<or> isCompletion (operations g ! m)"
  by (auto simp: segmentBad_def less_Suc_eq)

lemma fixupInv_writeOperation:
  assumes inv: "fixupInv g m a" and nc: "numberedClauses a"
    and len: "length (clauses a) = length (filter (labelAt (labels g)) [0..<Suc m])"
    and m: "m < length (operations g)"
  shows "fixupInv g (Suc m) (writeOperation m (operations g ! m) as a)"
proof -
  let ?c = "length (clauses a)"
  let ?code = "operations g ! m"
  let ?a2 = "writeOperation m ?code as a"
  from nc have st: "statements a = ?c"
    by (simp add: numberedClauses_def)
  from writeOperation_summary [of m ?code as a] obtain k pushes where
    p: "\<forall>p \<in> set pushes. \<exists>b l. p = pushAt b l"
    and w: "?a2 =
        (if suppressing a then (appended pushes a)\<lparr>blockIndex := k\<rparr>
         else (appended (pushes @ [opStatement ?code as (relatedLocation a)]) a)
                \<lparr>blockIndex := k, instructionWasAbrupt := isAbrupt ?code,
                 instructionWasCompletion := isCompletion ?code\<rparr>)"
    by blast
  have cl: "clauses ?a2 = clauses a" and st2: "statements ?a2 = ?c"
    by (simp_all add: st)
  have other: "buffers ?a2 b = buffers a b" if "b \<noteq> ?c" for b
    using that unfolding w by (simp add: appended_def st)
  have sup2: "suppressing ?a2 \<longleftrightarrow> suppressing a \<or> isAbrupt ?code \<or> isCompletion ?code"
    by (rule suppressing_writeOperation)
  have one: "\<forall>N. Suc N < length (clauses ?a2) \<longrightarrow> closedRight g N (buffers ?a2 (Suc N))"
    using inv other by (simp add: cl fixupInv_def)
  have two: "suppressing ?a2 \<longleftrightarrow> segmentBad g (caseStarts g ! (?c - 1)) (Suc m)" if ne: "clauses a \<noteq> []"
  proof -
    from ne have "?c - 1 < length (filter (labelAt (labels g)) [0..<Suc m])"
      using len by (cases "clauses a") auto
    with m have "caseStarts g ! (?c - 1) < Suc m"
      by (intro caseStarts_nth_old) auto
    then have "caseStarts g ! (?c - 1) \<le> m"
      by simp
    from segmentBad_Suc [OF this] inv ne sup2 show ?thesis
      by (simp add: fixupInv_def)
  qed
  have three: "buffers ?a2 ?c \<noteq> [] \<and> (\<forall>n. \<not> isFixup n (last (buffers ?a2 ?c)))" if s2: "suppressing ?a2"
  proof (cases "suppressing a")
    case True
    with inv have old: "buffers a ?c \<noteq> []" "\<forall>n. \<not> isFixup n (last (buffers a ?c))"
      by (simp_all add: fixupInv_def st)
    from True w have b: "buffers ?a2 ?c = buffers a ?c @ pushes"
      by (simp add: appended_def st)
    show ?thesis
    proof (cases "pushes = []")
      case True
      with b old show ?thesis by simp
    next
      case False
      then have "last pushes \<in> set pushes"
        by simp
      with p obtain b' l where "last pushes = pushAt b' l"
        by blast
      with False b show ?thesis
        by simp
    qed
  next
    case False
    with s2 sup2 have bad: "isAbrupt ?code \<or> isCompletion ?code"
      by simp
    from False w have "buffers ?a2 ?c = buffers a ?c @ pushes @ [opStatement ?code as (relatedLocation a)]"
      by (simp add: appended_def st)
    with not_isFixup_opStatement [OF bad] show ?thesis
      by simp
  qed
  from one two three show ?thesis
    unfolding fixupInv_def cl st2 by blast
qed

lemma fixupInv_after:
  "m \<le> length (operations g) \<Longrightarrow> fixupInv g m (after g m)"
proof (induct m)
  case 0
  show ?case
    by (simp add: fixupInv_def suppressing_def)
next
  case (Suc m)
  let ?a = "(after g m)\<lparr>relatedLocation := operationLocations g ! m\<rparr>"
  from Suc have "fixupInv g m (after g m)"
    by simp
  then have "fixupInv g m ?a"
    by (subst fixupInv_cong [of _ "after g m"]) simp_all
  moreover have "numberedClauses ?a"
    using numberedClauses_after [of g m]
    by (subst numberedClauses_cong [of _ "after g m"]) simp_all
  moreover have "length (clauses ?a) = length (filter (labelAt (labels g)) [0..<m])"
    by (simp add: length_clauses_after)
  ultimately have "fixupInv g m (ensureLabels m ?a)"
    using Suc.prems by (intro fixupInv_ensureLabels) simp_all
  moreover have "numberedClauses (ensureLabels m ?a)"
    using \<open>numberedClauses ?a\<close> by (rule numberedClauses_ensureLabels)
  moreover have "length (clauses (ensureLabels m ?a)) = length (filter (labelAt (labels g)) [0..<Suc m])"
    by (simp add: length_clauses_ensureLabels length_clauses_after)
  ultimately have "fixupInv g (Suc m)
      (writeOperation m (operations g ! m) (operationArguments g ! m) (ensureLabels m ?a))"
    using Suc.prems by (intro fixupInv_writeOperation) simp_all
  then show ?case
    by (simp add: operationStep_eq)
qed

lemma closedRight_assemble:
  assumes "Suc N < length (clauses (assemble g))"
  shows "closedRight g N (buffers (assemble g) (Suc N))"
proof -
  let ?n = "length (operations g)"
  let ?a1 = "ensureLabels ?n (after g ?n)"
  have nc: "numberedClauses ?a1"
    by (intro numberedClauses_ensureLabels numberedClauses_after)
  have "fixupInv g ?n ?a1"
    by (intro fixupInv_ensureLabels fixupInv_after numberedClauses_after)
       (simp_all add: length_clauses_after)
  moreover have cl: "clauses (assemble g) = clauses ?a1"
    by (simp add: assemble_eq Let_def writeReturn_eq)
  moreover have "buffers (assemble g) (Suc N) = buffers ?a1 (Suc N)"
    using assms nc unfolding cl
    by (simp add: assemble_eq Let_def writeReturn_eq appended_def numberedClauses_def)
  ultimately show ?thesis
    using assms by (simp add: fixupInv_def)
qed

lemma writtenOperations_last:
  "xs \<noteq> [] \<Longrightarrow>
     writtenOperations xs \<noteq> []
     \<and> ((isAbrupt (last (writtenOperations xs)) \<or> isCompletion (last (writtenOperations xs)))
          \<longleftrightarrow> (\<exists>c \<in> set xs. isAbrupt c \<or> isCompletion c))"
proof (induct xs)
  case Nil
  then show ?case by simp
next
  case (Cons c cs)
  then show ?case
    by (cases "cs = []") auto
qed

lemma segmentBad_slice:
  assumes "s \<le> e" and "e \<le> length (operations g)"
  shows "(\<exists>c \<in> set (take (e - s) (drop s (operations g))). isAbrupt c \<or> isCompletion c)
     \<longleftrightarrow> segmentBad g s e"
proof -
  let ?xs = "take (e - s) (drop s (operations g))"
  from assms have len: "length ?xs = e - s"
    by simp
  have nth: "?xs ! i = operations g ! (s + i)" if "i < e - s" for i
    using that assms by simp
  show ?thesis
  proof
    assume "\<exists>c \<in> set ?xs. isAbrupt c \<or> isCompletion c"
    then obtain c where "c \<in> set ?xs" and bad: "isAbrupt c \<or> isCompletion c"
      by blast
    then obtain i where i: "i < e - s" and c: "c = ?xs ! i"
      using len by (metis in_set_conv_nth)
    with nth [OF i] bad have "isAbrupt (operations g ! (s + i)) \<or> isCompletion (operations g ! (s + i))"
      by simp
    moreover from i have "s \<le> s + i" "s + i < e"
      by simp_all
    ultimately show "segmentBad g s e"
      unfolding segmentBad_def by blast
  next
    assume "segmentBad g s e"
    then obtain k where k: "s \<le> k" "k < e"
      and bad: "isAbrupt (operations g ! k) \<or> isCompletion (operations g ! k)"
      unfolding segmentBad_def by blast
    from k have i: "k - s < e - s"
      by simp
    with nth [OF i] k have "?xs ! (k - s) = operations g ! k"
      by simp
    moreover from i len have "?xs ! (k - s) \<in> set ?xs"
      by (intro nth_mem) simp
    ultimately show "\<exists>c \<in> set ?xs. isAbrupt c \<or> isCompletion c"
      using bad by metis
  qed
qed

text \<open>C2. After any recording, for consecutive cases \<open>N\<close> and \<open>N + 1\<close> of the assembled
  body: the last statement of case \<open>N\<close> is the fix-up \<^verbatim>\<open>__state.label = N+1;\<close> if and only
  if the last operation written into case \<open>N\<close> is neither abrupt (\<^verbatim>\<open>Break\<close>, \<^verbatim>\<open>Yield\<close>,
  \<^verbatim>\<open>Endfinally\<close>) nor a completion (\<^verbatim>\<open>Return\<close>, \<^verbatim>\<open>Throw\<close>). Case \<open>N\<close> has at least one
  written operation.\<close>

theorem C2_fall_through_fixup:
  assumes "run calls createCodeGenerator = Inr g"
    and "Suc N < length (fst (buildFunctionBody g))"
  shows "writtenOperations (caseOperations g N) \<noteq> []
     \<and> ((caseStatements (fst (buildFunctionBody g) ! N) \<noteq> []
           \<and> isFixup (Suc N) (last (caseStatements (fst (buildFunctionBody g) ! N))))
         \<longleftrightarrow> \<not> (isAbrupt (last (writtenOperations (caseOperations g N)))
                  \<or> isCompletion (last (writtenOperations (caseOperations g N)))))"
proof -
  let ?s = "caseStarts g ! N" and ?e = "caseStarts g ! Suc N"
  from assms(2) have N: "Suc N < length (clauses (assemble g))"
    by (simp add: length_buildFunctionBody)
  then have Ns: "Suc N < length (caseStarts g)"
    by (simp add: length_clauses_assemble caseStarts_def)
  then have lt: "?s < ?e" and le: "?e \<le> length (operations g)"
    by (simp_all add: caseStarts_increasing caseStarts_bound)
  then have ne: "caseOperations g N \<noteq> []"
    by (simp add: caseOperations_def)
  from N have "N < length (clauses (assemble g))"
    by simp
  from buildFunctionBody_nth [OF this]
  have body: "caseStatements (fst (buildFunctionBody g) ! N) = buffers (assemble g) (Suc N)"
    by auto
  from lt le have "(\<exists>c \<in> set (caseOperations g N). isAbrupt c \<or> isCompletion c)
      \<longleftrightarrow> segmentBad g ?s ?e"
    unfolding caseOperations_def by (intro segmentBad_slice) simp_all
  with writtenOperations_last [OF ne] closedRight_assemble [OF N] body show ?thesis
    by (simp add: closedRight_def)
qed

theorem C2_fall_through_fixup_witness:
  "run [Emit Yield [Num 42], DefineLabel, MarkLabel 2] createCodeGenerator
     = Inr (markLabel 2 (snd (defineLabel (emit Yield [Num 42] createCodeGenerator))))
   \<and> Suc 0 < length (fst (buildFunctionBody
         (markLabel 2 (snd (defineLabel (emit Yield [Num 42] createCodeGenerator))))))
   \<and> writtenOperations (caseOperations
         (markLabel 2 (snd (defineLabel (emit Yield [Num 42] createCodeGenerator)))) 0) = [Yield]
   \<and> \<not> (caseStatements (fst (buildFunctionBody
            (markLabel 2 (snd (defineLabel (emit Yield [Num 42] createCodeGenerator))))) ! 0) \<noteq> []
        \<and> isFixup (Suc 0) (last (caseStatements (fst (buildFunctionBody
            (markLabel 2 (snd (defineLabel (emit Yield [Num 42] createCodeGenerator))))) ! 0))))"
proof -
  let ?g = "markLabel 2 (snd (defineLabel (emit Yield [Num 42] createCodeGenerator)))"
  have r: "run [Emit Yield [Num 42], DefineLabel, MarkLabel 2] createCodeGenerator = Inr ?g"
    by simp
  have ops: "operations ?g = [Yield]"
    by (simp add: emit_operations createCodeGenerator_eq emptyGenerator_def)
  have ls: "labels ?g = [None, Some 0, Some 1]"
    by (simp add: ops [simplified] emit_operations createCodeGenerator_eq emptyGenerator_def
        arraySet_def)
  have starts: "caseStarts ?g = [0, 1]"
    unfolding caseStarts_def ops ls by (simp add: labelAt_def upt_conv_Cons)
  have n: "Suc 0 < length (fst (buildFunctionBody ?g))"
    using starts by (simp add: length_buildFunctionBody length_clauses_assemble caseStarts_def)
  have w: "writtenOperations (caseOperations ?g 0) = [Yield]"
    unfolding caseOperations_def starts ops by (simp add: isAbrupt_def)
  from C2_fall_through_fixup [OF r n] r n w show ?thesis
    by (simp add: isAbrupt_def)
qed

subsection \<open>A recording without opcodes\<close>








subsection \<open>The turn of the loop at a dead opcode\<close>

lemma suppressing_relatedLocation [simp]:
  "suppressing (a\<lparr>relatedLocation := l\<rparr>) = suppressing a"
  by (simp add: suppressing_def)









section \<open>Protected regions\<close>

subsection \<open>Invariants of the recorder\<close>

lemma isStartLabel_iff:
  "isStartLabel g l \<longleftrightarrow>
     (\<exists>a < nextAddress g. kind (heap g a) = Exception \<and> startLabel (heap g a) = Some l)"
  by (auto simp: isStartLabel_def)

lemma isStartLabel_cong:
  "heap g' = heap g \<Longrightarrow> nextAddress g' = nextAddress g \<Longrightarrow> isStartLabel g' l = isStartLabel g l"
  by (simp add: isStartLabel_iff)

lemma openException_cong:
  "blocks g' = blocks g \<Longrightarrow> blockActions g' = blockActions g \<Longrightarrow> heap g' = heap g
     \<Longrightarrow> openException g' k = openException g k"
  by (simp add: openException_def)



















































subsection \<open>Pushes\<close>

lemma isPushFor_text: "isPushFor l (GeneratedNode text content loc) \<Longrightarrow> text = pushTemplate"
  by (erule isPushFor.elims) simp_all

lemma isPushFor_other [simp]:
  "text \<noteq> pushTemplate \<Longrightarrow> \<not> isPushFor l (GeneratedNode text content loc)"
  by (auto dest: isPushFor_text)

lemma isPushFor_pushAt [simp]: "isPushFor l (pushAt b loc) \<longleftrightarrow> startLabel b = Some l"
  by (cases "startLabel b") (simp_all add: pushAt_def)

lemma isPushFor_fixup [simp]: "\<not> isPushFor l (fixup n loc)"
  by (simp add: fixup_def fixupTemplate_def pushTemplate_def)

lemma isPushFor_trys [simp]: "\<not> isPushFor l (GeneratedNode trysTemplate Undefined loc)"
  by (simp add: trysTemplate_def pushTemplate_def)

lemma isPushFor_wrapped [simp]: "isPushFor l (wrapped node loc) = isPushFor l node"
  by (cases node) (simp_all add: wrapped_def)




subsection \<open>One turn of the loop\<close>






lemma labelled_fields [simp]:
  "blockIndex (labelled g m) = blockIndex (after g m)"
  "blocks (labelled g m) = blocks g"
  "blockActions (labelled g m) = blockActions g"
  "blockOffsets (labelled g m) = blockOffsets g"
  "heap (labelled g m) = heap g"
  "relatedLocation (labelled g m) = operationLocations g ! m"
  "labels (labelled g m) = labels g"
  by (simp_all add: labelled_def)







subsection \<open>After the loop\<close>




subsection \<open>The catch and finally labels of a block\<close>







subsection \<open>The protected regions of the assembled body\<close>






text \<open>The condition on \<^verbatim>\<open>markLabel\<close> is needed. When the caller marks the start label again
  after a later opcode, \<^verbatim>\<open>labelNumbers\<close> gives the later case for it, and the push stays in
  the case that was current at the offset of the event.\<close>

lemma remarked_start_label:
  "(case run [BeginExceptionBlock, Emit Return [], MarkLabel 2, Emit Return []] createCodeGenerator of
      Inl e \<Rightarrow> False
    | Inr g \<Rightarrow>
        startLabel (heap g (blocks g ! 0)) = Some 2
        \<and> arrayGet (labelNumbers (snd (buildFunctionBody g))) 2 = Some 1
        \<and> filter (isPushFor 2) (caseStatements (fst (buildFunctionBody g) ! 0)) \<noteq> []
        \<and> filter (isPushFor 2) (caseStatements (fst (buildFunctionBody g) ! 1)) = [])"
  by code_simp

end
